theory Spec2Isabelle
  imports Main "HOL-Library.AList" "HOL-Library.Sublist"
begin

section \<open>The asynchronous PTT crawler (ptt\_async\_crawler.py)\<close>

text \<open>
  The crawler drives a headless browser.  Everything the browser answers is an input of
  the model: each awaited browser call either raises an \<open>Exception\<close> or returns, and
  the code's control flow is a function of these answers.  \<open>BaseException\<close>s that are
  not \<open>Exception\<close>s (task cancellation, a keyboard interrupt) are outside the model, and
  \<open>page.close()\<close> is taken to return normally; the clean-up of the browser at the end of
  \<open>main\<close> may raise.  The \<open>print\<close> calls have no effect
  except for the dictionary lookups in their arguments, which are modelled.
  A character of a \<open>string\<close> stands for one code point of a Python \<open>str\<close>.
\<close>

subsection \<open>Module constants\<close>

definition NUM_BOARDS :: nat where "NUM_BOARDS = 10"
definition ARTICLES_PER_BOARD :: nat where "ARTICLES_PER_BOARD = 15"
definition CONCURRENT_BOARDS :: nat where "CONCURRENT_BOARDS = 3"
definition CONCURRENT_ARTICLES :: nat where "CONCURRENT_ARTICLES = 5"
definition PAGE_TIMEOUT :: nat where "PAGE_TIMEOUT = 30000"
definition REQUEST_DELAY :: nat where "REQUEST_DELAY = 1"
definition MAX_RETRIES :: nat where "MAX_RETRIES = 2"
definition RETRY_DELAY :: nat where "RETRY_DELAY = 3"

subsection \<open>Data\<close>

text \<open>Dictionary values are strings or integers; a dictionary keeps its insertion order.\<close>

datatype pyval = Str string | Num int

type_synonym post = "(string \<times> string) list"
type_synonym article = "(string \<times> pyval) list"

record board =
  name :: string
  url :: string

text \<open>Exceptions: a missing dictionary key, or any other \<open>Exception\<close> with its message.\<close>

datatype exn = KeyError string | Error string

fun str_exn :: "exn \<Rightarrow> string" where
  "str_exn (KeyError k) = [CHR 0x27] @ k @ [CHR 0x27]"
| "str_exn (Error m) = m"

text \<open>\<open>self.stats\<close>; the two times are readings of the clock.\<close>

record stats =
  boards_processed :: nat
  articles_crawled :: nat
  articles_failed :: nat
  articles_retried :: nat
  errors :: nat
  start_time :: "nat option"
  end_time :: "nat option"

definition init_stats :: stats where
  "init_stats = \<lparr>boards_processed = 0, articles_crawled = 0, articles_failed = 0,
     articles_retried = 0, errors = 0, start_time = None, end_time = None\<rparr>"

text \<open>
  A dictionary display \<open>{**d, k1: v1, ..., kn: vn}\<close>: the entries of \<open>d\<close>, then each
  key set in turn (a key already present keeps its place and takes the new value).
\<close>

definition spread :: "post \<Rightarrow> article" where
  "spread p = map (\<lambda>(k, v). (k, Str v)) p"

definition dict_with :: "article \<Rightarrow> (string \<times> pyval) list \<Rightarrow> article" where
  "dict_with d items = fold (\<lambda>(k, v). AList.update k v) items d"

definition dict_get :: "(string \<times> 'v) list \<Rightarrow> string \<Rightarrow> 'v option" where
  "dict_get d k = map_of d k"

subsection \<open>String helpers\<close>

text \<open>Python's whitespace (\<open>str.isspace\<close>, the class \<open>\s\<close>) among the code points below 256.\<close>

definition isspace :: "char \<Rightarrow> bool" where
  "isspace c = ((of_char c :: nat) \<in> {9, 10, 11, 12, 13, 28, 29, 30, 31, 32, 133, 160})"

definition strip :: "string \<Rightarrow> string" where
  "strip s = rev (dropWhile isspace (rev (dropWhile isspace s)))"

text \<open>\<open>re.sub(r'\s+', ' ', s)\<close>: every maximal run of whitespace becomes one blank.\<close>

function collapse_ws :: "string \<Rightarrow> string" where
  "collapse_ws [] = []"
| "collapse_ws (c # cs) =
     (if isspace c then CHR 0x20 # collapse_ws (dropWhile isspace cs)
      else c # collapse_ws cs)"
  by pat_completeness auto
termination
  by (relation "measure length") (auto simp: length_dropWhile_le less_Suc_eq_le)

subsection \<open>What the browser answers\<close>

datatype 'a outcome = Raises string | Returns 'a

text \<open>
  Page set-up: the wait for the load state (or the look-up of the age button) raises;
  or there is no age button; or there is one, with what the click on it does and, when
  the click returns, what the wait for the load state after it does.
\<close>

datatype setup_obs = LoadRaises string | AgeAbsent | AgePresent "unit outcome" "unit outcome"

record page_obs =
  new_page :: "unit outcome"
  goto :: "unit outcome"
  page_setup :: setup_obs

text \<open>The detail page: \<open>#main-content\<close>'s count and text, and the number of \<open>.push\<close> elements.\<close>

record page_content =
  main_count :: nat
  content_text :: "string option"
  push_count :: nat

record attempt = page_obs +
  detail :: "page_content outcome"

text \<open>The calls on the outside world that the unit logs.\<close>

datatype call =
    NewPage
  | Goto string nat
  | WaitLoadState nat
  | ClickAgeConfirm
  | WaitSelector string nat
  | Sleep nat

subsection \<open>handle\_page\_setup\<close>

text \<open>Both branches of the handler return \<open>False\<close>; they differ in the message printed.\<close>

definition handle_page_setup :: "setup_obs \<Rightarrow> nat \<Rightarrow> bool \<times> call list" where
  "handle_page_setup obs retry_count =
     (let timeout = 10000 + retry_count * 5000 in
      case obs of
        LoadRaises e \<Rightarrow> (False, [WaitLoadState timeout])
      | AgeAbsent \<Rightarrow> (True, [WaitLoadState timeout])
      | AgePresent (Raises e) _ \<Rightarrow> (False, [WaitLoadState timeout, ClickAgeConfirm])
      | AgePresent (Returns _) (Raises e) \<Rightarrow>
          (False, [WaitLoadState timeout, ClickAgeConfirm, WaitLoadState 5000])
      | AgePresent (Returns _) (Returns _) \<Rightarrow>
          (True, [WaitLoadState timeout, ClickAgeConfirm, WaitLoadState 5000]))"

subsection \<open>get\_article\_detail\_with\_retry\<close>

text \<open>How one pass through the body of the \<open>for\<close> loop ends.\<close>

datatype flow = Continue | Return article | Raise exn

text \<open>\<open>post['title'][:30]\<close>, evaluated by the \<open>print\<close> calls.\<close>

definition title_prefix :: "post \<Rightarrow> exn + string" where
  "title_prefix p =
     (case dict_get p ''title'' of
        None \<Rightarrow> Inl (KeyError ''title'')
      | Some t \<Rightarrow> Inr (take 30 t))"

definition failed_record :: "post \<Rightarrow> nat \<Rightarrow> article" where
  "failed_record p retry_count =
     dict_with (spread p)
       [(''content'', Str ''''), (''pushes'', Num 0), (''status'', Str ''failed''),
        (''retry_count'', Num (int retry_count))]"

definition error_record :: "post \<Rightarrow> exn \<Rightarrow> nat \<Rightarrow> article" where
  "error_record p e retry_count =
     dict_with (spread p)
       [(''content'', Str ''''), (''pushes'', Num 0), (''status'', Str ''error''),
        (''error'', Str (str_exn e)), (''retry_count'', Num (int retry_count))]"

definition page_text :: "page_content \<Rightarrow> string" where
  "page_text pc =
     (if main_count pc > 0 then
        (case content_text pc of
           None \<Rightarrow> ''''
         | Some t \<Rightarrow> if t = '''' then '''' else collapse_ws (strip t))
      else '''')"

definition success_record :: "post \<Rightarrow> page_content \<Rightarrow> string \<Rightarrow> nat \<Rightarrow> article" where
  "success_record p pc timestamp retry_count =
     dict_with (spread p)
       [(''content'', Str (take 1000 (page_text pc))), (''pushes'', Num (int (push_count pc))),
        (''status'', Str ''success''), (''crawl_time'', Str timestamp),
        (''retry_count'', Num (int retry_count))]"

text \<open>
  The inner \<open>try\<close> block of one attempt (lines 255 to 308).  \<open>timestamp\<close> is the reading
  of the clock formatted at line 288.
\<close>

definition attempt_body ::
  "post \<Rightarrow> string \<Rightarrow> nat \<Rightarrow> attempt \<Rightarrow> stats \<Rightarrow> flow \<times> stats \<times> call list" where
  "attempt_body p timestamp retry_count a st =
     (case new_page a of
        Raises e \<Rightarrow> (Raise (Error e), st, [NewPage])
      | Returns _ \<Rightarrow>
     (case dict_get p ''link'' of
        None \<Rightarrow> (Raise (KeyError ''link''), st, [NewPage])
      | Some link \<Rightarrow>
     (case goto a of
        Raises e \<Rightarrow> (Raise (Error e), st, [NewPage, Goto link PAGE_TIMEOUT])
      | Returns _ \<Rightarrow>
     (let (ok, waits) = handle_page_setup (page_setup a) retry_count;
          log = [NewPage, Goto link PAGE_TIMEOUT] @ waits
      in
      if \<not> ok then
        (if retry_count < MAX_RETRIES then
           (case title_prefix p of
              Inl x \<Rightarrow> (Raise x, st, log)
            | Inr _ \<Rightarrow>
                (Continue, st\<lparr>articles_retried := articles_retried st + 1\<rparr>,
                 log @ [Sleep RETRY_DELAY]))
         else (Return (failed_record p retry_count), st, log))
      else
        (case detail a of
           Raises e \<Rightarrow> (Raise (Error e), st, log @ [WaitSelector ''#main-content'' 15000])
         | Returns pc \<Rightarrow>
             (let result = success_record p pc timestamp retry_count;
                  log' = log @ [WaitSelector ''#main-content'' 15000]
              in
              if retry_count > 0 then
                (case title_prefix p of
                   Inl x \<Rightarrow> (Raise x, st, log')
                 | Inr _ \<Rightarrow> (Return result, st, log' @ [Sleep REQUEST_DELAY]))
              else (Return result, st, log' @ [Sleep REQUEST_DELAY])))))))"

text \<open>The handler \<open>except Exception as e\<close> of the outer \<open>try\<close> (lines 310 to 326).\<close>

definition on_exception ::
  "post \<Rightarrow> nat \<Rightarrow> exn \<Rightarrow> stats \<Rightarrow> call list \<Rightarrow> flow \<times> stats \<times> call list" where
  "on_exception p retry_count e st log =
     (case title_prefix p of
        Inl x \<Rightarrow> (Raise x, st, log)
      | Inr _ \<Rightarrow>
          if retry_count < MAX_RETRIES then
            (Continue, st\<lparr>articles_retried := articles_retried st + 1\<rparr>,
             log @ [Sleep RETRY_DELAY])
          else
            (Return (error_record p e retry_count), st\<lparr>errors := errors st + 1\<rparr>, log))"

text \<open>One pass through the loop body: the inner block, then the handler if it raised.\<close>

definition one_attempt ::
  "post \<Rightarrow> string \<Rightarrow> nat \<Rightarrow> attempt \<Rightarrow> stats \<Rightarrow> flow \<times> stats \<times> call list" where
  "one_attempt p timestamp retry_count a st =
     (case attempt_body p timestamp retry_count a st of
        (Raise e, st', log) \<Rightarrow> on_exception p retry_count e st' log
      | r \<Rightarrow> r)"

text \<open>
  The loop \<open>for retry_count in range(MAX_RETRIES + 1)\<close>, with the statement after it
  (line 329).  \<open>w k\<close> is what the browser answers in attempt \<open>k\<close>.  Every logged call
  carries the \<open>retry_count\<close> of the pass that made it.  The result is the returned
  dictionary, or the exception that leaves the coroutine.
\<close>

fun retry_loop ::
  "post \<Rightarrow> string \<Rightarrow> (nat \<Rightarrow> attempt) \<Rightarrow> nat list \<Rightarrow> stats
     \<Rightarrow> (exn + article) \<times> stats \<times> (nat \<times> call) list" where
  "retry_loop p timestamp w [] st = (Inr (failed_record p MAX_RETRIES), st, [])"
| "retry_loop p timestamp w (k # ks) st =
     (case one_attempt p timestamp k (w k) st of
        (Continue, st', log) \<Rightarrow>
          (case retry_loop p timestamp w ks st' of
             (r, st'', log') \<Rightarrow> (r, st'', map (Pair k) log @ log'))
      | (Return a, st', log) \<Rightarrow> (Inr a, st', map (Pair k) log)
      | (Raise x, st', log) \<Rightarrow> (Inl x, st', map (Pair k) log))"

definition get_article_detail_with_retry ::
  "post \<Rightarrow> string \<Rightarrow> (nat \<Rightarrow> attempt) \<Rightarrow> stats
     \<Rightarrow> (exn + article) \<times> stats \<times> (nat \<times> call) list" where
  "get_article_detail_with_retry p timestamp w st =
     retry_loop p timestamp w [0..<MAX_RETRIES + 1] st"

subsection \<open>get\_board\_posts\<close>

text \<open>
  One \<open>.r-ent\<close> element of a board's index page: a locator call on it raises, or the
  counts and texts the locators give.
\<close>

record entry =
  title_link_count :: nat
  title_text :: "string option"
  title_href :: "string option"
  author_count :: nat
  author_text :: "string option"
  date_count :: nat
  date_text :: "string option"

datatype entry_obs = EntryRaises string | Entry entry

record listing_obs = page_obs +
  entries :: "entry_obs list outcome"

text \<open>The truth value of an optional string: \<open>None\<close> and the empty string are false.\<close>

fun truthy :: "string option \<Rightarrow> bool" where
  "truthy None = False"
| "truthy (Some s) = (s \<noteq> [])"

text \<open>
  The body of the loop over the elements: the post appended, or \<open>None\<close> when the element
  is skipped (\<open>continue\<close>).  \<open>.strip()\<close> on a text that is \<open>None\<close> raises inside the
  \<open>try\<close>, which skips the element as well.
\<close>

definition parse_entry :: "board \<Rightarrow> entry_obs \<Rightarrow> post option" where
  "parse_entry b eo =
     (case eo of
        EntryRaises e \<Rightarrow> None
      | Entry r \<Rightarrow>
          if title_link_count r = 0 then None
          else if \<not> truthy (title_text r) \<or> \<not> truthy (title_href r) then None
          else
            (let author = (if author_count r > 0 then author_text r else Some []);
                 date = (if date_count r > 0 then date_text r else Some [])
             in case (author, date) of
                  (Some au, Some da) \<Rightarrow>
                    Some [(''title'', strip (the (title_text r))),
                          (''link'', ''https://www.ptt.cc'' @ the (title_href r)),
                          (''author'', strip au),
                          (''date'', strip da),
                          (''board'', name b)]
                | _ \<Rightarrow> None))"

text \<open>
  \<open>new_page()\<close> is called before the \<open>try\<close>: when it raises, the exception leaves the
  coroutine.  Every failure after that gives the empty list.
\<close>

definition get_board_posts :: "board \<Rightarrow> listing_obs \<Rightarrow> exn + post list" where
  "get_board_posts b l =
     (case new_page l of
        Raises e \<Rightarrow> Inl (Error e)
      | Returns _ \<Rightarrow>
     (case goto l of
        Raises e \<Rightarrow> Inr []
      | Returns _ \<Rightarrow>
          if \<not> fst (handle_page_setup (page_setup l) 0) then Inr []
          else
            (case entries l of
               Raises e \<Rightarrow> Inr []
             | Returns article_elements \<Rightarrow>
                 Inr (List.map_filter (parse_entry b)
                        (take ARTICLES_PER_BOARD article_elements)))))"

subsection \<open>process\_board\<close>

text \<open>
  What the outside world answers while one board is processed: the index page, the
  detail page of post \<open>i\<close> in attempt \<open>k\<close> (\<open>fetch i k\<close>), and the clock reading of the
  unit of post \<open>i\<close>.
\<close>

record board_world =
  listing :: listing_obs
  fetch :: "nat \<Rightarrow> nat \<Rightarrow> attempt"
  clock :: "nat \<Rightarrow> string"

text \<open>
  \<open>asyncio.gather(*tasks, return_exceptions=True)\<close> gives one result per task, in the
  order of the tasks, an exception that left a task being its result.  The units touch
  the shared counters only by increments, which commute, so the counters are threaded
  through the units in the order of the posts.
\<close>

fun gather_units ::
  "board_world \<Rightarrow> nat \<Rightarrow> post list \<Rightarrow> stats \<Rightarrow> (exn + article) list \<times> stats" where
  "gather_units bw i [] st = ([], st)"
| "gather_units bw i (p # ps) st =
     (case get_article_detail_with_retry p (clock bw i) (fetch bw i) st of
        (r, st', log) \<Rightarrow>
          (case gather_units bw (Suc i) ps st' of
             (rs, st'') \<Rightarrow> (r # rs, st'')))"

text \<open>The loop over the results (lines 419 to 429).\<close>

fun keep_results ::
  "(exn + article) list \<Rightarrow> article list \<Rightarrow> stats \<Rightarrow> article list \<times> stats" where
  "keep_results [] articles st = (articles, st)"
| "keep_results (Inl e # rs) articles st =
     keep_results rs articles (st\<lparr>errors := errors st + 1\<rparr>)"
| "keep_results (Inr result # rs) articles st =
     keep_results rs (articles @ [result])
       (if dict_get result ''status'' = Some (Str ''success'')
        then st\<lparr>articles_crawled := articles_crawled st + 1\<rparr>
        else st\<lparr>articles_failed := articles_failed st + 1\<rparr>)"

definition process_board ::
  "board \<Rightarrow> board_world \<Rightarrow> stats \<Rightarrow> (exn + string \<times> article list) \<times> stats" where
  "process_board b bw st =
     (case get_board_posts b (listing bw) of
        Inl e \<Rightarrow> (Inr (name b, []), st\<lparr>errors := errors st + 1\<rparr>)
      | Inr posts \<Rightarrow>
          if posts = [] then (Inr (name b, []), st)
          else
            (case gather_units bw 0 posts st of
               (results, st1) \<Rightarrow>
                 (case keep_results results [] st1 of
                    (articles, st2) \<Rightarrow>
                      (Inr (name b, articles),
                       st2\<lparr>boards_processed := boards_processed st2 + 1\<rparr>))))"

subsection \<open>get\_hotboards and get\_default\_boards\<close>

record board_elem =
  board_name_count :: nat
  board_name_text :: "string option"
  board_href :: "string option"

datatype board_elem_obs = ElemRaises string | Elem board_elem

record discovery_obs = page_obs +
  board_elements :: "board_elem_obs list outcome"

definition get_default_boards :: "board list" where
  "get_default_boards = take NUM_BOARDS
     [\<lparr>name = ''Gossiping'', url = ''https://www.ptt.cc/bbs/Gossiping/''\<rparr>,
      \<lparr>name = ''Stock'', url = ''https://www.ptt.cc/bbs/Stock/''\<rparr>,
      \<lparr>name = ''NBA'', url = ''https://www.ptt.cc/bbs/NBA/''\<rparr>,
      \<lparr>name = ''Baseball'', url = ''https://www.ptt.cc/bbs/Baseball/''\<rparr>,
      \<lparr>name = ''C_Chat'', url = ''https://www.ptt.cc/bbs/C_Chat/''\<rparr>,
      \<lparr>name = ''PC_Shopping'', url = ''https://www.ptt.cc/bbs/PC_Shopping/''\<rparr>,
      \<lparr>name = ''DC_SALE'', url = ''https://www.ptt.cc/bbs/DC_SALE/''\<rparr>,
      \<lparr>name = ''MobileComm'', url = ''https://www.ptt.cc/bbs/MobileComm/''\<rparr>,
      \<lparr>name = ''Lifeismoney'', url = ''https://www.ptt.cc/bbs/Lifeismoney/''\<rparr>,
      \<lparr>name = ''car'', url = ''https://www.ptt.cc/bbs/car/''\<rparr>]"

definition parse_board :: "board_elem_obs \<Rightarrow> board option" where
  "parse_board eo =
     (case eo of
        ElemRaises e \<Rightarrow> None
      | Elem r \<Rightarrow>
          if board_name_count r > 0 \<and> truthy (board_name_text r) \<and> truthy (board_href r)
          then Some \<lparr>name = strip (the (board_name_text r)),
                     url = ''https://www.ptt.cc'' @ the (board_href r)\<rparr>
          else None)"

definition get_hotboards :: "discovery_obs \<Rightarrow> exn + board list" where
  "get_hotboards d =
     (case new_page d of
        Raises e \<Rightarrow> Inl (Error e)
      | Returns _ \<Rightarrow>
     (case goto d of
        Raises e \<Rightarrow> Inr get_default_boards
      | Returns _ \<Rightarrow>
          if \<not> fst (handle_page_setup (page_setup d) 0) then Inr get_default_boards
          else
            (case board_elements d of
               Raises e \<Rightarrow> Inr get_default_boards
             | Returns elems \<Rightarrow>
                 (let boards = List.map_filter parse_board (take NUM_BOARDS elems)
                  in Inr (if boards \<noteq> [] then boards else get_default_boards)))))"

subsection \<open>crawl\_all\_boards, run and main\<close>

text \<open>
  What the outside world answers during a whole run: the launch of the browser
  (\<open>setup_browser\<close>), the hot-boards page, the world of the board at each position of the
  board list, the clock at the start and at the end of the crawl, and the closing of the
  context, the browser and the driver in \<open>cleanup\<close>.
\<close>

record world =
  launch :: "unit outcome"
  cleanup :: "unit outcome"
  discovery :: discovery_obs
  boards_w :: "nat \<Rightarrow> board_world"
  t_start :: nat
  t_end :: nat

type_synonym boards_data = "(string \<times> article list) list"

text \<open>The \<open>gather\<close> over the boards; the counters are threaded as for the units.\<close>

fun gather_boards ::
  "(nat \<Rightarrow> board_world) \<Rightarrow> nat \<Rightarrow> board list \<Rightarrow> stats
     \<Rightarrow> (exn + string \<times> article list) list \<times> stats" where
  "gather_boards bws i [] st = ([], st)"
| "gather_boards bws i (b # bs) st =
     (case process_board b (bws i) st of
        (r, st') \<Rightarrow>
          (case gather_boards bws (Suc i) bs st' of
             (rs, st'') \<Rightarrow> (r # rs, st'')))"

text \<open>The loop that fills \<open>boards_data\<close> (lines 465 to 473).\<close>

fun collect :: "(exn + string \<times> article list) list \<Rightarrow> boards_data \<Rightarrow> boards_data" where
  "collect [] bd = bd"
| "collect (Inl e # rs) bd = collect rs bd"
| "collect (Inr (board_name, articles) # rs) bd =
     collect rs (if articles \<noteq> [] then AList.update board_name articles bd else bd)"

definition crawl_all_boards :: "world \<Rightarrow> stats \<Rightarrow> (exn + boards_data) \<times> stats" where
  "crawl_all_boards w st =
     (let st0 = st\<lparr>start_time := Some (t_start w)\<rparr> in
      case get_hotboards (discovery w) of
        Inl e \<Rightarrow> (Inl e, st0)
      | Inr boards \<Rightarrow>
          if boards = [] then (Inr [], st0)
          else
            (case gather_boards (boards_w w) 0 boards st0 of
               (results, st1) \<Rightarrow>
                 (Inr (collect results []), st1\<lparr>end_time := Some (t_end w)\<rparr>)))"

text \<open>
  \<open>run\<close> gives its boolean, the files handed to the save tasks and the counters.  The
  save coroutines catch their own exceptions and their results are not read.  The
  difference of the two times raises when one of them is \<open>None\<close>.
\<close>

definition run :: "world \<Rightarrow> stats \<Rightarrow> bool \<times> string list \<times> stats" where
  "run w st =
     (case crawl_all_boards w st of
        (Inl e, st') \<Rightarrow> (False, [], st')
      | (Inr boards_data, st') \<Rightarrow>
          if boards_data = [] then (False, [], st')
          else
            (let save_tasks =
                   map (\<lambda>(board_name, articles). board_name @ ''_improved.csv'') boards_data
                   @ [''crawl_summary_improved.json'']
             in case (end_time st', start_time st') of
                  (Some e, Some s) \<Rightarrow> (True, save_tasks, st')
                | _ \<Rightarrow> (False, save_tasks, st')))"

text \<open>
  The value of \<open>main()\<close> is the exit code of the process.  When \<open>setup_browser\<close> raises
  in \<open>__aenter__\<close> the block is not entered.  Otherwise \<open>run\<close> is called, and the \<open>return\<close>
  leaves the block through \<open>__aexit__\<close>, which calls \<open>cleanup\<close>: an exception raised there
  replaces the value being returned and is caught by \<open>except Exception\<close>.
\<close>

definition main :: "world \<Rightarrow> nat" where
  "main w =
     (case launch w of
        Raises e \<Rightarrow> 1
      | Returns _ \<Rightarrow>
          (case run w init_stats of
             (success, files, st) \<Rightarrow>
               (case cleanup w of
                  Raises e \<Rightarrow> 1
                | Returns _ \<Rightarrow> if success then 0 else 1)))"

subsection \<open>The two semaphores\<close>

text \<open>
  \<open>crawl_all_boards\<close> creates one semaphore of \<open>CONCURRENT_BOARDS\<close> and one task per
  board; \<open>process_board\<close> runs inside \<open>async with sem\<close>, and for a board with posts it
  creates a semaphore of \<open>CONCURRENT_ARTICLES\<close> and one task per post, each of which runs
  its attempts inside \<open>async with sem\<close>, and waits for all of them in \<open>gather\<close>.  The
  event loop interleaves the tasks; which task moves next is an input of the model, as
  the browser's answers are.  A semaphore is its counter: a task acquires it when the
  counter is positive and decrements it, and increments it on leaving the \<open>with\<close> block,
  by a return or by an exception.
\<close>

datatype unit_task = UnitWaiting | UnitInFlight | UnitDone

text \<open>
  A board task waits for the board semaphore, lists the board's posts, or waits in
  \<open>gather\<close> with the counter of its article semaphore and its unit tasks, or is done.
\<close>

datatype board_task =
    BoardWaiting
  | BoardListing
  | BoardGathering nat "unit_task list"
  | BoardDone

record sched =
  board_sem :: nat
  board_tasks :: "board_task list"

text \<open>
  The steps of the tasks: board \<open>i\<close> enters its \<open>with\<close> block; its listing gives \<open>n\<close>
  posts (with none, \<open>process_board\<close> returns and leaves the block); unit \<open>j\<close> of board
  \<open>i\<close> enters its \<open>with\<close> block; the unit leaves it; \<open>gather\<close> has all its results and
  the board leaves its block.
\<close>

datatype action =
    AcquireBoard nat
  | Listed nat nat
  | AcquireArticle nat nat
  | ReleaseArticle nat nat
  | ReleaseBoard nat

definition set_task :: "nat \<Rightarrow> board_task \<Rightarrow> sched \<Rightarrow> sched" where
  "set_task i t s = s\<lparr>board_tasks := (board_tasks s)[i := t]\<rparr>"

text \<open>The state after a step, or \<open>None\<close> when the task cannot take this step now.\<close>

definition fire :: "action \<Rightarrow> sched \<Rightarrow> sched option" where
  "fire a s =
     (case a of
        AcquireBoard i \<Rightarrow>
          if i < length (board_tasks s) \<and> board_tasks s ! i = BoardWaiting \<and> 0 < board_sem s
          then Some (set_task i BoardListing (s\<lparr>board_sem := board_sem s - 1\<rparr>))
          else None
      | Listed i n \<Rightarrow>
          if i < length (board_tasks s) \<and> board_tasks s ! i = BoardListing
             \<and> n \<le> ARTICLES_PER_BOARD
          then
            (if n = 0 then Some (set_task i BoardDone (s\<lparr>board_sem := board_sem s + 1\<rparr>))
             else Some (set_task i
                    (BoardGathering CONCURRENT_ARTICLES (replicate n UnitWaiting)) s))
          else None
      | AcquireArticle i j \<Rightarrow>
          if i < length (board_tasks s) then
            (case board_tasks s ! i of
               BoardGathering v us \<Rightarrow>
                 if j < length us \<and> us ! j = UnitWaiting \<and> 0 < v
                 then Some (set_task i (BoardGathering (v - 1) (us[j := UnitInFlight])) s)
                 else None
             | _ \<Rightarrow> None)
          else None
      | ReleaseArticle i j \<Rightarrow>
          if i < length (board_tasks s) then
            (case board_tasks s ! i of
               BoardGathering v us \<Rightarrow>
                 if j < length us \<and> us ! j = UnitInFlight
                 then Some (set_task i (BoardGathering (v + 1) (us[j := UnitDone])) s)
                 else None
             | _ \<Rightarrow> None)
          else None
      | ReleaseBoard i \<Rightarrow>
          if i < length (board_tasks s) then
            (case board_tasks s ! i of
               BoardGathering v us \<Rightarrow>
                 if list_all (\<lambda>u. u = UnitDone) us
                 then Some (set_task i BoardDone (s\<lparr>board_sem := board_sem s + 1\<rparr>))
                 else None
             | _ \<Rightarrow> None)
          else None)"

fun schedule :: "action list \<Rightarrow> sched \<Rightarrow> sched option" where
  "schedule [] s = Some s"
| "schedule (a # as) s = (case fire a s of None \<Rightarrow> None | Some s' \<Rightarrow> schedule as s')"

text \<open>The start of the \<open>gather\<close> over \<open>n\<close> boards.\<close>

definition start :: "nat \<Rightarrow> sched" where
  "start n = \<lparr>board_sem = CONCURRENT_BOARDS, board_tasks = replicate n BoardWaiting\<rparr>"

text \<open>The units inside their \<open>with\<close> block: those that may have a fetch in flight.\<close>

fun in_flight_of :: "board_task \<Rightarrow> nat" where
  "in_flight_of (BoardGathering v us) = length (filter (\<lambda>u. u = UnitInFlight) us)"
| "in_flight_of t = 0"

definition in_flight :: "sched \<Rightarrow> nat" where
  "in_flight s = sum_list (map in_flight_of (board_tasks s))"

fun active_of :: "board_task \<Rightarrow> nat" where
  "active_of BoardListing = 1"
| "active_of (BoardGathering v us) = 1"
| "active_of t = 0"

fun task_ok :: "board_task \<Rightarrow> bool" where
  "task_ok (BoardGathering v us) =
     (v + length (filter (\<lambda>u. u = UnitInFlight) us) = CONCURRENT_ARTICLES)"
| "task_ok t = True"

text \<open>What the semaphores keep: each counter and its holders add up to its start value.\<close>

definition sched_inv :: "sched \<Rightarrow> bool" where
  "sched_inv s =
     (board_sem s + sum_list (map active_of (board_tasks s)) = CONCURRENT_BOARDS
      \<and> list_all task_ok (board_tasks s))"

subsection \<open>Notions used in the statements\<close>

text \<open>
  The browser's answers let an attempt read the detail page: no call raises and the
  page set-up passes.
\<close>

definition page_loads :: "attempt \<Rightarrow> bool" where
  "page_loads a =
     (case (new_page a, goto a, detail a) of
        (Returns _, Returns _, Returns _) \<Rightarrow> fst (handle_page_setup (page_setup a) 0)
      | _ \<Rightarrow> False)"

text \<open>The attempts a unit made, read off its log: each attempt opens one page.\<close>

definition attempts_made :: "(nat \<times> call) list \<Rightarrow> nat list" where
  "attempts_made log = map fst (filter (\<lambda>(k, c). c = NewPage) log)"

text \<open>An attempt gets as far as the page set-up: the post has a link, and the page is
  opened and navigated to.\<close>

definition reaches_setup :: "post \<Rightarrow> attempt \<Rightarrow> bool" where
  "reaches_setup p a =
     (case (new_page a, goto a) of
        (Returns _, Returns _) \<Rightarrow> dict_get p ''link'' \<noteq> None
      | _ \<Rightarrow> False)"

text \<open>An attempt fails: the post has no link, or the browser's answers do not load the page.\<close>

definition attempt_fails :: "post \<Rightarrow> attempt \<Rightarrow> bool" where
  "attempt_fails p a = (\<not> (page_loads a \<and> dict_get p ''link'' \<noteq> None))"

text \<open>
  The result of a unit and of a board, as functions of the browser's answers alone (the
  counters they are started with do not influence them).
\<close>

definition unit_result :: "post \<Rightarrow> string \<Rightarrow> (nat \<Rightarrow> attempt) \<Rightarrow> exn + article" where
  "unit_result p timestamp w = fst (get_article_detail_with_retry p timestamp w init_stats)"

definition board_result :: "board \<Rightarrow> board_world \<Rightarrow> exn + string \<times> article list" where
  "board_result b bw = fst (process_board b bw init_stats)"

text \<open>The listing step of a board fails: one of its browser calls raises, or the page
  set-up reports failure.\<close>

definition listing_fails :: "listing_obs \<Rightarrow> bool" where
  "listing_fails l =
     (case new_page l of
        Raises e \<Rightarrow> True
      | Returns _ \<Rightarrow>
     (case goto l of
        Raises e \<Rightarrow> True
      | Returns _ \<Rightarrow>
          \<not> fst (handle_page_setup (page_setup l) 0)
          \<or> (case entries l of Raises e \<Rightarrow> True | Returns _ \<Rightarrow> False)))"

text \<open>
  Discovery is degraded: after the page was opened, the navigation or the wait for the
  board list raises, the page set-up reports failure, or no element yields a board.
\<close>

definition discovery_degraded :: "discovery_obs \<Rightarrow> bool" where
  "discovery_degraded d =
     (case goto d of
        Raises e \<Rightarrow> True
      | Returns _ \<Rightarrow>
          \<not> fst (handle_page_setup (page_setup d) 0)
          \<or> (case board_elements d of
                Raises e \<Rightarrow> True
              | Returns elems \<Rightarrow> List.map_filter parse_board (take NUM_BOARDS elems) = []))"

text \<open>A dictionary without its \<open>crawl_time\<close>, and the same for all of \<open>boards_data\<close>.\<close>

definition erase_time :: "article \<Rightarrow> article" where
  "erase_time a = AList.delete ''crawl_time'' a"

definition erase_times :: "boards_data \<Rightarrow> boards_data" where
  "erase_times bd = map (\<lambda>(board_name, articles). (board_name, map erase_time articles)) bd"

text \<open>The same for the result of a unit, of a board and of \<open>crawl_all_boards\<close>.\<close>

definition erase_outcome :: "exn + article \<Rightarrow> exn + article" where
  "erase_outcome r = (case r of Inl e \<Rightarrow> Inl e | Inr a \<Rightarrow> Inr (erase_time a))"

definition erase_board :: "exn + string \<times> article list \<Rightarrow> exn + string \<times> article list" where
  "erase_board r = (case r of Inl e \<Rightarrow> Inl e | Inr (n, arts) \<Rightarrow> Inr (n, map erase_time arts))"

definition erase_crawl :: "exn + boards_data \<Rightarrow> exn + boards_data" where
  "erase_crawl r = (case r of Inl e \<Rightarrow> Inl e | Inr bd \<Rightarrow> Inr (erase_times bd))"

subsection \<open>Example inputs\<close>

text \<open>A post as \<open>get_board_posts\<close> builds it, and three detail pages.\<close>

definition demo_post :: post where
  "demo_post =
     [(''title'', ''[News] Finals''), (''link'', ''https://www.ptt.cc/bbs/NBA/M.1.A.html''),
      (''author'', ''bob''), (''date'', ''11/04''), (''board'', ''NBA'')]"

definition page_ok :: attempt where
  "page_ok = \<lparr>new_page = Returns (), goto = Returns (), page_setup = AgeAbsent,
     detail = Returns \<lparr>main_count = 1, content_text = Some ''  game   seven '',
                        push_count = 7\<rparr>\<rparr>"

definition page_goto_raises :: attempt where
  "page_goto_raises = \<lparr>new_page = Returns (), goto = Raises ''Timeout 30000ms exceeded'',
     page_setup = AgeAbsent, detail = Raises ''closed''\<rparr>"

definition page_setup_fails :: attempt where
  "page_setup_fails = \<lparr>new_page = Returns (), goto = Returns (),
     page_setup = LoadRaises ''Timeout 10000ms exceeded'', detail = Raises ''closed''\<rparr>"

definition page_detail_raises :: attempt where
  "page_detail_raises = \<lparr>new_page = Returns (), goto = Returns (), page_setup = AgeAbsent,
     detail = Raises ''Timeout 15000ms exceeded''\<rparr>"

text \<open>Browsers: every navigation times out; the first set-up fails and the next attempt
  loads; the content never appears.\<close>

definition fetch_never :: "nat \<Rightarrow> attempt" where
  "fetch_never k = page_goto_raises"

definition fetch_second :: "nat \<Rightarrow> attempt" where
  "fetch_second k = (if k = 0 then page_setup_fails else page_ok)"

definition fetch_no_content :: "nat \<Rightarrow> attempt" where
  "fetch_no_content k = page_detail_raises"

definition fetch_ok :: "nat \<Rightarrow> attempt" where
  "fetch_ok k = page_ok"

text \<open>A board, listings of its index page, and worlds around it.\<close>

definition demo_board :: board where
  "demo_board = \<lparr>name = ''NBA'', url = ''https://www.ptt.cc/bbs/NBA/index.html''\<rparr>"

definition listing_two :: listing_obs where
  "listing_two = \<lparr>new_page = Returns (), goto = Returns (), page_setup = AgeAbsent,
     entries = Returns
       [Entry \<lparr>title_link_count = 1, title_text = Some '' [News] Finals '',
               title_href = Some ''/bbs/NBA/M.1.A.html'', author_count = 1,
               author_text = Some ''bob'', date_count = 1, date_text = Some '' 11/04''\<rparr>,
        Entry \<lparr>title_link_count = 0, title_text = None, title_href = None,
               author_count = 1, author_text = Some ''-'', date_count = 1,
               date_text = Some '' 11/04''\<rparr>,
        Entry \<lparr>title_link_count = 1, title_text = Some ''Re: [News] Finals'',
               title_href = Some ''/bbs/NBA/M.2.A.html'', author_count = 1,
               author_text = Some ''amy'', date_count = 1, date_text = Some '' 11/04''\<rparr>]\<rparr>"

definition listing_goto_raises :: listing_obs where
  "listing_goto_raises = \<lparr>new_page = Returns (), goto = Raises ''Timeout 30000ms exceeded'',
     page_setup = AgeAbsent, entries = Raises ''closed''\<rparr>"

definition listing_none :: listing_obs where
  "listing_none = \<lparr>new_page = Returns (), goto = Returns (), page_setup = AgeAbsent,
     entries = Returns []\<rparr>"

definition demo_fetch :: "nat \<Rightarrow> nat \<Rightarrow> attempt" where
  "demo_fetch i k = (if i = 0 then page_goto_raises else page_ok)"

definition demo_clock :: "nat \<Rightarrow> string" where
  "demo_clock i = ''2025-11-04 10:00:00''"

definition demo_bw :: board_world where
  "demo_bw = \<lparr>listing = listing_two, fetch = demo_fetch, clock = demo_clock\<rparr>"

definition bw_listing_fails :: board_world where
  "bw_listing_fails = \<lparr>listing = listing_goto_raises, fetch = demo_fetch, clock = demo_clock\<rparr>"

definition bw_no_posts :: board_world where
  "bw_no_posts = \<lparr>listing = listing_none, fetch = demo_fetch, clock = demo_clock\<rparr>"

text \<open>Hot-board pages and whole worlds.\<close>

definition discovery_one :: discovery_obs where
  "discovery_one = \<lparr>new_page = Returns (), goto = Returns (), page_setup = AgeAbsent,
     board_elements = Returns
       [Elem \<lparr>board_name_count = 1, board_name_text = Some ''NBA'',
              board_href = Some ''/bbs/NBA/index.html''\<rparr>]\<rparr>"

definition discovery_no_page :: discovery_obs where
  "discovery_no_page = \<lparr>new_page = Raises ''Target page, context or browser has been closed'',
     goto = Raises ''closed'', page_setup = AgeAbsent, board_elements = Raises ''closed''\<rparr>"

definition discovery_timeout :: discovery_obs where
  "discovery_timeout = \<lparr>new_page = Returns (), goto = Raises ''Timeout 30000ms exceeded'',
     page_setup = AgeAbsent, board_elements = Raises ''closed''\<rparr>"

definition later_clock :: "nat \<Rightarrow> string" where
  "later_clock i = ''2025-11-04 10:07:30''"

definition fetch_all_never :: "nat \<Rightarrow> nat \<Rightarrow> attempt" where
  "fetch_all_never i k = page_goto_raises"

definition bws_all_fail :: "nat \<Rightarrow> board_world" where
  "bws_all_fail i = \<lparr>listing = listing_two, fetch = fetch_all_never, clock = demo_clock\<rparr>"

definition world_all_fail :: world where
  "world_all_fail = \<lparr>launch = Returns (), cleanup = Returns (), discovery = discovery_one, boards_w = bws_all_fail,
     t_start = 0, t_end = 90\<rparr>"

definition bws_none :: "nat \<Rightarrow> board_world" where
  "bws_none i = bw_no_posts"

definition world_no_page :: world where
  "world_no_page = \<lparr>launch = Returns (), cleanup = Returns (), discovery = discovery_no_page, boards_w = bws_none,
     t_start = 0, t_end = 90\<rparr>"

definition world_timeout :: world where
  "world_timeout = \<lparr>launch = Returns (), cleanup = Returns (), discovery = discovery_timeout, boards_w = bws_none,
     t_start = 0, t_end = 90\<rparr>"

definition bws_at :: "(nat \<Rightarrow> string) \<Rightarrow> nat \<Rightarrow> board_world" where
  "bws_at c i = \<lparr>listing = listing_two, fetch = demo_fetch, clock = c\<rparr>"

definition world_at :: "(nat \<Rightarrow> string) \<Rightarrow> nat \<Rightarrow> nat \<Rightarrow> world" where
  "world_at c t0 t1 = \<lparr>launch = Returns (), cleanup = Returns (), discovery = discovery_one, boards_w = bws_at c,
     t_start = t0, t_end = t1\<rparr>"

definition world_cleanup_raises :: world where
  "world_cleanup_raises = \<lparr>launch = Returns (), cleanup = Raises ''Connection closed'',
     discovery = discovery_one, boards_w = bws_at demo_clock, t_start = 0, t_end = 90\<rparr>"

text \<open>
  A schedule over four boards of six posts each: three boards enter, list their posts,
  and five units of each enter; \<open>sched_full\<close> is the state it reaches.
\<close>

definition board_steps :: "nat \<Rightarrow> action list" where
  "board_steps i = [AcquireBoard i, Listed i 6, AcquireArticle i 0, AcquireArticle i 1,
     AcquireArticle i 2, AcquireArticle i 3, AcquireArticle i 4]"

definition demo_schedule :: "action list" where
  "demo_schedule = board_steps 0 @ board_steps 1 @ board_steps 2"

definition board_full :: board_task where
  "board_full = BoardGathering 0
     [UnitInFlight, UnitInFlight, UnitInFlight, UnitInFlight, UnitInFlight, UnitWaiting]"

definition sched_full :: sched where
  "sched_full = \<lparr>board_sem = 0,
     board_tasks = [board_full, board_full, board_full, BoardWaiting]\<rparr>"

section \<open>Lemmas\<close>

subsection \<open>Dictionaries\<close>

lemma dict_get_spread: "dict_get (spread p) k = map_option Str (dict_get p k)"
  unfolding dict_get_def spread_def by (induction p) auto

lemma dict_get_dict_with:
  "dict_get (dict_with d items) k =
     (case map_of (rev items) k of Some v \<Rightarrow> Some v | None \<Rightarrow> dict_get d k)"
  unfolding dict_with_def dict_get_def
  by (induction items arbitrary: d) (auto simp: update_conv' split: option.splits)

lemma keys_dict_with: "fst ` set (dict_with d items) = fst ` set d \<union> fst ` set items"
  unfolding dict_with_def
proof (induction items arbitrary: d)
  case Nil
  then show ?case by simp
next
  case (Cons kv items)
  obtain k v where kv: "kv = (k, v)" by (cases kv)
  show ?case
    by (simp add: kv Cons.IH dom_update Un_commute Un_left_commute insert_commute)
qed

lemma keys_spread: "fst ` set (spread p) = fst ` set p"
  unfolding spread_def by force

lemma dict_get_failed_record:
  "dict_get (failed_record p r) k =
     (if k = ''retry_count'' then Some (Num (int r))
      else if k = ''status'' then Some (Str ''failed'')
      else if k = ''pushes'' then Some (Num 0)
      else if k = ''content'' then Some (Str [])
      else map_option Str (dict_get p k))"
  by (simp add: failed_record_def dict_get_dict_with dict_get_spread)

lemma dict_get_error_record:
  "dict_get (error_record p e r) k =
     (if k = ''retry_count'' then Some (Num (int r))
      else if k = ''error'' then Some (Str (str_exn e))
      else if k = ''status'' then Some (Str ''error'')
      else if k = ''pushes'' then Some (Num 0)
      else if k = ''content'' then Some (Str [])
      else map_option Str (dict_get p k))"
  by (simp add: error_record_def dict_get_dict_with dict_get_spread)

lemma dict_get_success_record:
  "dict_get (success_record p pc ts r) k =
     (if k = ''retry_count'' then Some (Num (int r))
      else if k = ''crawl_time'' then Some (Str ts)
      else if k = ''status'' then Some (Str ''success'')
      else if k = ''pushes'' then Some (Num (int (push_count pc)))
      else if k = ''content'' then Some (Str (take 1000 (page_text pc)))
      else map_option Str (dict_get p k))"
  by (simp add: success_record_def dict_get_dict_with dict_get_spread)

lemma keys_failed_record:
  "fst ` set (failed_record p r) =
     fst ` set p \<union> {''content'', ''pushes'', ''status'', ''retry_count''}"
  by (auto simp: failed_record_def keys_dict_with keys_spread)

lemma keys_error_record:
  "fst ` set (error_record p e r) =
     fst ` set p \<union> {''content'', ''pushes'', ''status'', ''error'', ''retry_count''}"
  by (auto simp: error_record_def keys_dict_with keys_spread)

lemma keys_success_record:
  "fst ` set (success_record p pc ts r) =
     fst ` set p \<union> {''content'', ''pushes'', ''status'', ''crawl_time'', ''retry_count''}"
  by (auto simp: success_record_def keys_dict_with keys_spread)

subsection \<open>One pass through the retry loop\<close>

lemmas unit_defs = one_attempt_def attempt_body_def on_exception_def handle_page_setup_def
  title_prefix_def page_loads_def attempt_fails_def Let_def

lemmas unit_splits = outcome.splits option.splits setup_obs.splits sum.splits if_splits
  prod.splits flow.splits

lemma one_attempt_Continue:
  assumes "one_attempt p ts k a st = (Continue, st', log)"
  shows "k < MAX_RETRIES" and "dict_get p ''title'' \<noteq> None"
    and "attempt_fails p a"
    and "st' = st\<lparr>articles_retried := articles_retried st + 1\<rparr>"
    and "\<exists>l. log = NewPage # l @ [Sleep RETRY_DELAY] \<and> NewPage \<notin> set l
           \<and> (\<forall>d. Sleep d \<notin> set l)"
  using assms by (auto simp: unit_defs split: unit_splits)

lemma one_attempt_Raise:
  assumes "one_attempt p ts k a st = (Raise x, st', log)"
  shows "x = KeyError ''title''" and "dict_get p ''title'' = None" and "st' = st"
    and "\<exists>l. log = NewPage # l \<and> NewPage \<notin> set l \<and> (\<forall>d. Sleep d \<notin> set l)"
  using assms by (auto simp: unit_defs split: unit_splits)

lemma one_attempt_Return:
  assumes "one_attempt p ts k a st = (Return art, st', log)"
  shows "(\<exists>pc. art = success_record p pc ts k \<and> detail a = Returns pc
            \<and> \<not> attempt_fails p a \<and> st' = st
            \<and> fst (attempt_body p ts k a st0) = Return art
            \<and> (\<exists>l. log = NewPage # l @ [Sleep REQUEST_DELAY] \<and> NewPage \<notin> set l
                 \<and> (\<forall>d. Sleep d \<notin> set l)))
       \<or> (\<not> k < MAX_RETRIES \<and> attempt_fails p a
            \<and> ((art = failed_record p k \<and> st' = st
                  \<and> fst (attempt_body p ts k a st0) = Return art)
               \<or> (\<exists>e. art = error_record p e k \<and> dict_get p ''title'' \<noteq> None
                      \<and> fst (attempt_body p ts k a st0) = Raise e
                      \<and> st' = st\<lparr>errors := errors st + 1\<rparr>))
            \<and> (\<exists>l. log = NewPage # l \<and> NewPage \<notin> set l \<and> (\<forall>d. Sleep d \<notin> set l)))"
  using assms by (auto simp: unit_defs split: unit_splits)

lemma delays_differ: "RETRY_DELAY \<noteq> REQUEST_DELAY"
  by (simp add: RETRY_DELAY_def REQUEST_DELAY_def)


lemma one_attempt_log:
  assumes "one_attempt p ts k a st = (fl, st', log)"
  shows "\<exists>l. log = NewPage # l \<and> NewPage \<notin> set l"
    and "Sleep d \<in> set log \<Longrightarrow> d = RETRY_DELAY \<or> d = REQUEST_DELAY"
    and "Sleep RETRY_DELAY \<in> set log \<Longrightarrow> k < MAX_RETRIES"
proof -
  note facts = one_attempt_Continue(1,5)[of p ts k a st st' log]
    one_attempt_Raise(4)[of p ts k a st _ st' log]
    one_attempt_Return[of p ts k a st _ st' log st] delays_differ
  show "\<exists>l. log = NewPage # l \<and> NewPage \<notin> set l"
    using assms facts by (cases fl) auto
  show "Sleep d \<in> set log \<Longrightarrow> d = RETRY_DELAY \<or> d = REQUEST_DELAY"
    using assms facts by (cases fl) auto
  show "Sleep RETRY_DELAY \<in> set log \<Longrightarrow> k < MAX_RETRIES"
    using assms facts by (cases fl) auto
qed

lemma attempts_made_append: "attempts_made (xs @ ys) = attempts_made xs @ attempts_made ys"
  by (simp add: attempts_made_def)

lemma attempts_made_pass:
  "NewPage \<notin> set l \<Longrightarrow> attempts_made (map (Pair k) (NewPage # l)) = [k]"
  by (induction l) (auto simp: attempts_made_def)

text \<open>The counters decide neither how a pass ends nor what it logs.\<close>

lemma one_attempt_flow_indep:
  "fst (one_attempt p ts k a st) = fst (one_attempt p ts k a st0)"
  "snd (snd (one_attempt p ts k a st)) = snd (snd (one_attempt p ts k a st0))"
  by (auto simp: unit_defs split: unit_splits)

lemma attempt_body_flow_indep:
  "fst (attempt_body p ts k a st) = fst (attempt_body p ts k a st0)"
  by (auto simp: unit_defs split: unit_splits)

subsection \<open>The retry loop\<close>



text \<open>
  The passes made split the index list: the passes of \<open>ks1\<close> all ended in \<open>continue\<close>;
  then the list was exhausted, or the pass of the next index ended the loop.
\<close>

lemma retry_loop_shape:
  assumes "retry_loop p ts w ks st = (r, st', log)"
  shows "\<exists>ks1 rest. ks = ks1 @ rest \<and>
           (\<forall>j\<in>set ks1. j < MAX_RETRIES \<and> attempt_fails p (w j)
               \<and> dict_get p ''title'' \<noteq> None \<and> (j, Sleep RETRY_DELAY) \<in> set log) \<and>
           (case rest of
              [] \<Rightarrow> r = Inr (failed_record p MAX_RETRIES) \<and> attempts_made log = ks1
            | k # ks2 \<Rightarrow>
                attempts_made log = ks1 @ [k] \<and>
                ((r = Inl (KeyError ''title'') \<and> dict_get p ''title'' = None)
                 \<or> (\<exists>pc. r = Inr (success_record p pc ts k) \<and> detail (w k) = Returns pc
                        \<and> \<not> attempt_fails p (w k) \<and> (k, Sleep REQUEST_DELAY) \<in> set log
                        \<and> fst (attempt_body p ts k (w k) st0) = Return (success_record p pc ts k))
                 \<or> (\<not> k < MAX_RETRIES \<and> attempt_fails p (w k)
                      \<and> ((r = Inr (failed_record p k)
                            \<and> fst (attempt_body p ts k (w k) st0) = Return (failed_record p k))
                          \<or> (\<exists>e. r = Inr (error_record p e k)
                                \<and> fst (attempt_body p ts k (w k) st0) = Raise e
                                \<and> dict_get p ''title'' \<noteq> None)))))"
  using assms
proof (induction ks arbitrary: st r st' log)
  case Nil
  then show ?case by (simp add: attempts_made_def)
next
  case (Cons j ks)
  obtain fl st1 log1 where oa: "one_attempt p ts j (w j) st = (fl, st1, log1)"
    by (cases "one_attempt p ts j (w j) st") auto
  obtain l where l: "log1 = NewPage # l" "NewPage \<notin> set l"
    using one_attempt_log(1)[OF oa] by auto
  have am1: "attempts_made (map (Pair j) log1) = [j]"
    using attempts_made_pass[OF l(2), of j] l(1) by simp
  show ?case
  proof (cases fl)
    case Continue
    obtain r2 st2 log2 where rl: "retry_loop p ts w ks st1 = (r2, st2, log2)"
      by (cases "retry_loop p ts w ks st1") auto
    have res: "r = r2" "log = map (Pair j) log1 @ log2"
      using Cons.prems oa rl Continue by auto
    from Cons.IH[OF rl] obtain ks1 rest where ih:
      "ks = ks1 @ rest"
      "\<forall>i\<in>set ks1. i < MAX_RETRIES \<and> attempt_fails p (w i) \<and> dict_get p ''title'' \<noteq> None
               \<and> (i, Sleep RETRY_DELAY) \<in> set log2"
      "(case rest of
              [] \<Rightarrow> r2 = Inr (failed_record p MAX_RETRIES) \<and> attempts_made log2 = ks1
            | k # ks2 \<Rightarrow>
                attempts_made log2 = ks1 @ [k] \<and>
                ((r2 = Inl (KeyError ''title'') \<and> dict_get p ''title'' = None)
                 \<or> (\<exists>pc. r2 = Inr (success_record p pc ts k) \<and> detail (w k) = Returns pc
                        \<and> \<not> attempt_fails p (w k) \<and> (k, Sleep REQUEST_DELAY) \<in> set log2
                        \<and> fst (attempt_body p ts k (w k) st0) = Return (success_record p pc ts k))
                 \<or> (\<not> k < MAX_RETRIES \<and> attempt_fails p (w k)
                      \<and> ((r2 = Inr (failed_record p k)
                            \<and> fst (attempt_body p ts k (w k) st0) = Return (failed_record p k))
                          \<or> (\<exists>e. r2 = Inr (error_record p e k)
                                \<and> fst (attempt_body p ts k (w k) st0) = Raise e
                                \<and> dict_get p ''title'' \<noteq> None)))))"
      by blast
    have c: "j < MAX_RETRIES" "attempt_fails p (w j)" "dict_get p ''title'' \<noteq> None"
      using one_attempt_Continue(1,2,3)[OF oa[unfolded Continue]] by auto
    have sl: "(j, Sleep RETRY_DELAY) \<in> set log"
      using one_attempt_Continue(5)[OF oa[unfolded Continue]] res(2) by auto
    have "j # ks = (j # ks1) @ rest" using ih(1) by simp
    moreover have "\<forall>i\<in>set (j # ks1). i < MAX_RETRIES \<and> attempt_fails p (w i)
        \<and> dict_get p ''title'' \<noteq> None \<and> (i, Sleep RETRY_DELAY) \<in> set log"
      using c sl ih(2) res(2) by auto
    moreover have "(case rest of
              [] \<Rightarrow> r = Inr (failed_record p MAX_RETRIES) \<and> attempts_made log = j # ks1
            | k # ks2 \<Rightarrow>
                attempts_made log = (j # ks1) @ [k] \<and>
                ((r = Inl (KeyError ''title'') \<and> dict_get p ''title'' = None)
                 \<or> (\<exists>pc. r = Inr (success_record p pc ts k) \<and> detail (w k) = Returns pc
                        \<and> \<not> attempt_fails p (w k) \<and> (k, Sleep REQUEST_DELAY) \<in> set log
                        \<and> fst (attempt_body p ts k (w k) st0) = Return (success_record p pc ts k))
                 \<or> (\<not> k < MAX_RETRIES \<and> attempt_fails p (w k)
                      \<and> ((r = Inr (failed_record p k)
                            \<and> fst (attempt_body p ts k (w k) st0) = Return (failed_record p k))
                          \<or> (\<exists>e. r = Inr (error_record p e k)
                                \<and> fst (attempt_body p ts k (w k) st0) = Raise e
                                \<and> dict_get p ''title'' \<noteq> None)))))"
      using ih(3) res am1 by (cases rest) (auto simp: attempts_made_append)
    ultimately show ?thesis by blast
  next
    case (Return art)
    have res: "r = Inr art" "log = map (Pair j) log1"
      using Cons.prems oa Return by auto
    have "(\<exists>pc. r = Inr (success_record p pc ts j) \<and> detail (w j) = Returns pc
              \<and> \<not> attempt_fails p (w j) \<and> (j, Sleep REQUEST_DELAY) \<in> set log
              \<and> fst (attempt_body p ts j (w j) st0) = Return (success_record p pc ts j))
          \<or> (\<not> j < MAX_RETRIES \<and> attempt_fails p (w j)
               \<and> ((r = Inr (failed_record p j)
                     \<and> fst (attempt_body p ts j (w j) st0) = Return (failed_record p j))
                   \<or> (\<exists>e. r = Inr (error_record p e j)
                         \<and> fst (attempt_body p ts j (w j) st0) = Raise e
                         \<and> dict_get p ''title'' \<noteq> None)))"
      using one_attempt_Return[OF oa[unfolded Return], of st0] res by auto
    then show ?thesis
      using am1 res(2) by (intro exI[of _ "[]"] exI[of _ "j # ks"]) simp
  next
    case (Raise x)
    have res: "r = Inl x" "log = map (Pair j) log1"
      using Cons.prems oa Raise by auto
    have "r = Inl (KeyError ''title'') \<and> dict_get p ''title'' = None"
      using one_attempt_Raise(1,2)[OF oa[unfolded Raise]] res by auto
    then show ?thesis
      using am1 res(2) by (intro exI[of _ "[]"] exI[of _ "j # ks"]) simp
  qed
qed

lemma retry_loop_indep:
  "fst (retry_loop p ts w ks st) = fst (retry_loop p ts w ks st0)
   \<and> snd (snd (retry_loop p ts w ks st)) = snd (snd (retry_loop p ts w ks st0))"
proof (induction ks arbitrary: st st0)
  case Nil
  show ?case by simp
next
  case (Cons j ks)
  obtain fl st1 log1 where oa: "one_attempt p ts j (w j) st = (fl, st1, log1)"
    by (cases "one_attempt p ts j (w j) st") auto
  obtain fl' st1' log1' where oa': "one_attempt p ts j (w j) st0 = (fl', st1', log1')"
    by (cases "one_attempt p ts j (w j) st0") auto
  have eq: "fl' = fl" "log1' = log1"
    using one_attempt_flow_indep[of p ts j "w j" st st0] oa oa' by auto
  obtain r2 st2 log2 where rl: "retry_loop p ts w ks st1 = (r2, st2, log2)"
    by (cases "retry_loop p ts w ks st1") auto
  obtain r2' st2' log2' where rl': "retry_loop p ts w ks st1' = (r2', st2', log2')"
    by (cases "retry_loop p ts w ks st1'") auto
  have "r2' = r2" "log2' = log2"
    using Cons.IH[of st1 st1'] rl rl' by auto
  then show ?case
    by (cases fl) (simp_all add: oa oa' eq rl rl')
qed

lemma upt_split:
  assumes "[0..<n] = ks1 @ k # ks2"
  shows "ks1 = [0..<k]" and "k < n"
proof -
  have len: "length ks1 < n"
    using arg_cong[OF assms, of length] by simp
  have "[0..<n] ! length ks1 = k" using assms by simp
  then have k: "k = length ks1" using len by simp
  then show "k < n" using len by simp
  have "take (length ks1) [0..<n] = ks1" using assms by simp
  then show "ks1 = [0..<k]" using k len by (simp add: take_upt)
qed

subsection \<open>The unit as a whole\<close>

text \<open>
  The unit makes the attempts \<open>0, ..., k\<close> for some \<open>k \<le> MAX_RETRIES\<close>; the attempts
  before \<open>k\<close> failed and were followed by the retry delay; attempt \<open>k\<close> ended the unit.
\<close>

lemma unit_shape:
  assumes "get_article_detail_with_retry p ts w st = (r, st', log)"
  shows "\<exists>k. k \<le> MAX_RETRIES \<and> attempts_made log = [0..<Suc k] \<and>
           (\<forall>j<k. attempt_fails p (w j) \<and> dict_get p ''title'' \<noteq> None
               \<and> (j, Sleep RETRY_DELAY) \<in> set log) \<and>
           ((r = Inl (KeyError ''title'') \<and> dict_get p ''title'' = None)
            \<or> (\<exists>pc. r = Inr (success_record p pc ts k) \<and> detail (w k) = Returns pc
                   \<and> \<not> attempt_fails p (w k) \<and> (k, Sleep REQUEST_DELAY) \<in> set log
                   \<and> fst (attempt_body p ts k (w k) st0) = Return (success_record p pc ts k))
            \<or> (k = MAX_RETRIES \<and> attempt_fails p (w k)
                 \<and> ((r = Inr (failed_record p k)
                       \<and> fst (attempt_body p ts k (w k) st0) = Return (failed_record p k))
                     \<or> (\<exists>e. r = Inr (error_record p e k)
                           \<and> fst (attempt_body p ts k (w k) st0) = Raise e
                           \<and> dict_get p ''title'' \<noteq> None))))"
proof -
  from retry_loop_shape[OF assms[unfolded get_article_detail_with_retry_def], of st0]
  obtain ks1 rest where sh:
    "[0..<MAX_RETRIES + 1] = ks1 @ rest"
    "\<forall>j\<in>set ks1. j < MAX_RETRIES \<and> attempt_fails p (w j)
               \<and> dict_get p ''title'' \<noteq> None \<and> (j, Sleep RETRY_DELAY) \<in> set log"
    "(case rest of
              [] \<Rightarrow> r = Inr (failed_record p MAX_RETRIES) \<and> attempts_made log = ks1
            | k # ks2 \<Rightarrow>
                attempts_made log = ks1 @ [k] \<and>
                ((r = Inl (KeyError ''title'') \<and> dict_get p ''title'' = None)
                 \<or> (\<exists>pc. r = Inr (success_record p pc ts k) \<and> detail (w k) = Returns pc
                        \<and> \<not> attempt_fails p (w k) \<and> (k, Sleep REQUEST_DELAY) \<in> set log
                        \<and> fst (attempt_body p ts k (w k) st0) = Return (success_record p pc ts k))
                 \<or> (\<not> k < MAX_RETRIES \<and> attempt_fails p (w k)
                      \<and> ((r = Inr (failed_record p k)
                            \<and> fst (attempt_body p ts k (w k) st0) = Return (failed_record p k))
                          \<or> (\<exists>e. r = Inr (error_record p e k)
                                \<and> fst (attempt_body p ts k (w k) st0) = Raise e
                                \<and> dict_get p ''title'' \<noteq> None)))))"
    by blast
  show ?thesis
  proof (cases rest)
    case Nil
    then have "MAX_RETRIES \<in> set ks1" using sh(1) by (metis append_Nil2 atLeastLessThan_iff
          le0 less_add_one set_upt)
    then have False using sh(2) by auto
    then show ?thesis ..
  next
    case (Cons k ks2)
    have ks1: "ks1 = [0..<k]" and k: "k < MAX_RETRIES + 1"
      using upt_split[OF sh(1)[unfolded Cons]] by auto
    have am: "attempts_made log = [0..<Suc k]"
      using sh(3) Cons ks1 by simp
    have pre: "\<forall>j<k. attempt_fails p (w j) \<and> dict_get p ''title'' \<noteq> None
               \<and> (j, Sleep RETRY_DELAY) \<in> set log"
      using sh(2) ks1 by simp
    have "\<not> k < MAX_RETRIES \<Longrightarrow> k = MAX_RETRIES" using k by simp
    then show ?thesis
      using sh(3) Cons am pre k by (intro exI[of _ k]) auto
  qed
qed

lemma unit_indep:
  "fst (get_article_detail_with_retry p ts w st) = fst (get_article_detail_with_retry p ts w st0)"
  "snd (snd (get_article_detail_with_retry p ts w st))
     = snd (snd (get_article_detail_with_retry p ts w st0))"
  using retry_loop_indep[of p ts w "[0..<MAX_RETRIES + 1]" st st0]
  by (simp_all add: get_article_detail_with_retry_def)

text \<open>What a returned dictionary keeps of the post, and which keys it has.\<close>

lemma unit_frame:
  assumes "get_article_detail_with_retry p ts w st = (Inr art, st', log)"
  shows "(\<forall>key. key \<notin> {''content'', ''pushes'', ''status'', ''retry_count'', ''crawl_time'',
                        ''error''}
            \<longrightarrow> dict_get art key = map_option Str (dict_get p key)) \<and>
         fst ` set art =
           fst ` set p \<union> {''content'', ''pushes'', ''status'', ''retry_count''} \<union>
           (if dict_get art ''status'' = Some (Str ''success'') then {''crawl_time''}
            else if dict_get art ''status'' = Some (Str ''error'') then {''error''}
            else {})"
proof -
  from unit_shape[OF assms, of st] obtain k where
    fin: "(\<exists>pc. art = success_record p pc ts k)
            \<or> art = failed_record p k \<or> (\<exists>e. art = error_record p e k)"
    by auto
  then consider (s) pc where "art = success_record p pc ts k"
    | (f) "art = failed_record p k" | (e) e where "art = error_record p e k"
    by blast
  then show ?thesis
  proof cases
    case s
    then show ?thesis
      by (auto simp: dict_get_success_record keys_success_record)
  next
    case f
    then show ?thesis
      by (auto simp: dict_get_failed_record keys_failed_record)
  next
    case e
    then show ?thesis
      by (auto simp: dict_get_error_record keys_error_record)
  qed
qed

subsection \<open>Listing and processing a board\<close>

lemma parse_entry_keys:
  assumes "parse_entry b eo = Some p"
  shows "map fst p = [''title'', ''link'', ''author'', ''date'', ''board'']"
    and "dict_get p ''title'' \<noteq> None" and "dict_get p ''board'' = Some (name b)"
  using assms
  by (auto simp: parse_entry_def dict_get_def Let_def
      split: entry_obs.splits if_splits option.splits)

lemma map_filter_set: "x \<in> set (List.map_filter f xs) \<Longrightarrow> \<exists>y\<in>set xs. f y = Some x"
  by (auto simp: List.map_filter_def)

lemma get_board_posts_cases:
  "get_board_posts b l = Inr posts \<Longrightarrow>
     posts = [] \<or> (\<exists>elems. entries l = Returns elems
               \<and> posts = List.map_filter (parse_entry b) (take ARTICLES_PER_BOARD elems))"
  by (auto simp: get_board_posts_def split: outcome.splits if_splits)

lemma get_board_posts_keys:
  assumes "get_board_posts b l = Inr posts" and "p \<in> set posts"
  shows "map fst p = [''title'', ''link'', ''author'', ''date'', ''board'']"
    and "dict_get p ''title'' \<noteq> None" and "dict_get p ''board'' = Some (name b)"
proof -
  have "\<exists>eo. parse_entry b eo = Some p"
    using get_board_posts_cases[OF assms(1)] assms(2) map_filter_set[of p "parse_entry b"]
    by auto
  then show "map fst p = [''title'', ''link'', ''author'', ''date'', ''board'']"
    and "dict_get p ''title'' \<noteq> None" and "dict_get p ''board'' = Some (name b)"
    using parse_entry_keys by blast+
qed

lemma length_map_filter_le: "length (List.map_filter f xs) \<le> length xs"
  by (simp add: List.map_filter_def)

lemma get_board_posts_length:
  assumes "get_board_posts b l = Inr posts"
  shows "length posts \<le> ARTICLES_PER_BOARD"
proof -
  from get_board_posts_cases[OF assms] show ?thesis
  proof
    assume "posts = []"
    then show ?thesis by simp
  next
    assume "\<exists>elems. entries l = Returns elems
               \<and> posts = List.map_filter (parse_entry b) (take ARTICLES_PER_BOARD elems)"
    then obtain elems where
      "posts = List.map_filter (parse_entry b) (take ARTICLES_PER_BOARD elems)" by blast
    then have "length posts \<le> length (take ARTICLES_PER_BOARD elems)"
      using length_map_filter_le by blast
    then show ?thesis by simp
  qed
qed

lemma listing_fails_posts:
  "listing_fails l \<Longrightarrow> (\<exists>e. get_board_posts b l = Inl e) \<or> get_board_posts b l = Inr []"
  by (auto simp: listing_fails_def get_board_posts_def split: outcome.splits)

text \<open>The results of the gathered units: the result of post \<open>j\<close> at position \<open>j\<close>.\<close>

lemma gather_units_results:
  "fst (gather_units bw i ps st) =
     map (\<lambda>(j, p). unit_result p (clock bw j) (fetch bw j)) (zip [i..<i + length ps] ps)"
proof (induction ps arbitrary: i st)
  case Nil
  show ?case by simp
next
  case (Cons p ps)
  obtain r st1 log where u:
    "get_article_detail_with_retry p (clock bw i) (fetch bw i) st = (r, st1, log)"
    by (cases "get_article_detail_with_retry p (clock bw i) (fetch bw i) st") auto
  obtain rs st2 where g: "gather_units bw (Suc i) ps st1 = (rs, st2)"
    by (cases "gather_units bw (Suc i) ps st1") auto
  have r: "r = unit_result p (clock bw i) (fetch bw i)"
    using unit_indep(1)[of p "clock bw i" "fetch bw i" st init_stats] u
    by (simp add: unit_result_def)
  have rs: "rs = map (\<lambda>(j, p). unit_result p (clock bw j) (fetch bw j))
                   (zip [Suc i..<Suc i + length ps] ps)"
    using Cons.IH[of "Suc i" st1] g by simp
  have "[i..<i + length (p # ps)] = i # [Suc i..<Suc i + length ps]"
    by (simp add: upt_rec)
  then show ?case
    using u g r rs by simp
qed

lemma keep_results_articles:
  "fst (keep_results rs acc st) =
     acc @ List.map_filter (\<lambda>r. case r of Inl e \<Rightarrow> None | Inr a \<Rightarrow> Some a) rs"
proof (induction rs acc st rule: keep_results.induct)
  case (1 articles st)
  show ?case by (simp add: List.map_filter_def)
next
  case (2 e rs articles st)
  then show ?case by (simp add: List.map_filter_def)
next
  case (3 result rs articles st)
  then show ?case by (simp add: List.map_filter_def)
qed

lemma keep_results_counters:
  "boards_processed (snd (keep_results rs acc st)) = boards_processed st"
  "start_time (snd (keep_results rs acc st)) = start_time st"
  "end_time (snd (keep_results rs acc st)) = end_time st"
  by (induction rs acc st rule: keep_results.induct) auto

lemma map_filter_all_Inr:
  "List.map_filter (\<lambda>r. case r of Inl e \<Rightarrow> None | Inr a \<Rightarrow> Some a) (map Inr xs) = xs"
  by (induction xs) (auto simp: List.map_filter_def)

text \<open>What \<open>process_board\<close> returns, whatever the counters.\<close>

lemma process_board_result:
  "fst (process_board b bw st) =
     Inr (name b,
       case get_board_posts b (listing bw) of
         Inl e \<Rightarrow> []
       | Inr posts \<Rightarrow>
           List.map_filter (\<lambda>r. case r of Inl e \<Rightarrow> None | Inr a \<Rightarrow> Some a)
             (map (\<lambda>(j, p). unit_result p (clock bw j) (fetch bw j))
                (zip [0..<length posts] posts)))"
proof (cases "get_board_posts b (listing bw)")
  case (Inl e)
  then show ?thesis by (simp add: process_board_def)
next
  case (Inr posts)
  show ?thesis
  proof (cases "posts = []")
    case True
    then show ?thesis using Inr by (simp add: process_board_def List.map_filter_def)
  next
    case False
    obtain results st1 where g: "gather_units bw 0 posts st = (results, st1)"
      by (cases "gather_units bw 0 posts st") auto
    obtain articles st2 where k: "keep_results results [] st1 = (articles, st2)"
      by (cases "keep_results results [] st1") auto
    have "results = map (\<lambda>(j, p). unit_result p (clock bw j) (fetch bw j))
                      (zip [0..<length posts] posts)"
      using gather_units_results[of bw 0 posts st] g by simp
    moreover have "articles =
        List.map_filter (\<lambda>r. case r of Inl e \<Rightarrow> None | Inr a \<Rightarrow> Some a) results"
      using keep_results_articles[of results "[]" st1] k by simp
    ultimately show ?thesis
      using Inr False g k by (simp add: process_board_def)
  qed
qed

lemma board_result_indep: "fst (process_board b bw st) = board_result b bw"
  by (simp add: board_result_def process_board_result)

text \<open>A unit started on a post with a title returns a dictionary.\<close>

lemma unit_result_Inr:
  assumes "dict_get p ''title'' \<noteq> None"
  shows "\<exists>art. unit_result p ts w = Inr art"
proof -
  obtain r st' log where u: "get_article_detail_with_retry p ts w init_stats = (r, st', log)"
    by (cases "get_article_detail_with_retry p ts w init_stats") auto
  from unit_shape[OF u, of init_stats] assms have "\<exists>art. r = Inr art" by auto
  then show ?thesis using u by (simp add: unit_result_def)
qed

text \<open>For the posts of a listing every unit returns a dictionary, so none is dropped.\<close>

lemma listed_units_all_Inr:
  assumes "get_board_posts b l = Inr posts"
  shows "\<exists>arts. length arts = length posts \<and>
           map (\<lambda>(j, p). unit_result p (clock bw j) (fetch bw j)) (zip [i..<i + length posts] posts)
             = map Inr arts"
proof -
  have "\<forall>p\<in>set posts. dict_get p ''title'' \<noteq> None"
    using get_board_posts_keys(2)[OF assms] by blast
  then show ?thesis
  proof (induction posts arbitrary: i)
    case Nil
    show ?case by simp
  next
    case (Cons p ps)
    obtain art where a: "unit_result p (clock bw i) (fetch bw i) = Inr art"
      using unit_result_Inr[of p "clock bw i" "fetch bw i"] Cons.prems by auto
    obtain arts where as: "length arts = length ps"
      "map (\<lambda>(j, p). unit_result p (clock bw j) (fetch bw j)) (zip [Suc i..<Suc i + length ps] ps)
         = map Inr arts"
      using Cons.IH[of "Suc i"] Cons.prems by auto
    have "[i..<i + length (p # ps)] = i # [Suc i..<Suc i + length ps]"
      by (simp add: upt_rec)
    then show ?case
      using a as by (intro exI[of _ "art # arts"]) simp
  qed
qed

lemma process_board_listed:
  assumes "get_board_posts b (listing bw) = Inr posts"
    and "map (\<lambda>(j, p). unit_result p (clock bw j) (fetch bw j)) (zip [0..<length posts] posts)
           = map Inr arts"
  shows "fst (process_board b bw st) = Inr (name b, arts)"
proof -
  have "fst (process_board b bw st) =
      Inr (name b, List.map_filter (\<lambda>r. case r of Inl e \<Rightarrow> None | Inr a \<Rightarrow> Some a)
             (map (\<lambda>(j, p). unit_result p (clock bw j) (fetch bw j))
                (zip [0..<length posts] posts)))"
    by (simp only: process_board_result assms(1) sum.case)
  also have "\<dots> = Inr (name b, arts)"
    by (simp only: assms(2) map_filter_all_Inr)
  finally show ?thesis .
qed

lemma unit_results_nth:
  assumes "length arts = length posts"
    and "map (\<lambda>(j, p). unit_result p (clock bw j) (fetch bw j)) (zip [0..<length posts] posts)
           = map Inr arts"
    and "i < length posts"
  shows "unit_result (posts ! i) (clock bw i) (fetch bw i) = Inr (arts ! i)"
proof -
  have "Inr (arts ! i) = map Inr arts ! i"
    using assms(1,3) by simp
  also have "\<dots> = map (\<lambda>(j, p). unit_result p (clock bw j) (fetch bw j))
               (zip [0..<length posts] posts) ! i"
    by (simp only: assms(2))
  also have "\<dots> = unit_result (posts ! i) (clock bw i) (fetch bw i)"
    using assms(3) by simp
  finally show ?thesis by (rule sym)
qed

lemma unit_result_frame:
  assumes "unit_result p ts w = Inr art"
    and "key \<notin> {''content'', ''pushes'', ''status'', ''retry_count'', ''crawl_time'', ''error''}"
  shows "dict_get art key = map_option Str (dict_get p key)"
proof -
  obtain r st' log where u: "get_article_detail_with_retry p ts w init_stats = (r, st', log)"
    by (cases "get_article_detail_with_retry p ts w init_stats") auto
  then have "r = Inr art"
    using assms(1) by (simp add: unit_result_def)
  with u have "get_article_detail_with_retry p ts w init_stats = (Inr art, st', log)"
    by simp
  from unit_frame[OF this, THEN conjunct1, rule_format, OF assms(2)]
  show ?thesis .
qed

subsection \<open>The two clock readings in the counters\<close>

lemma one_attempt_times:
  "start_time (fst (snd (one_attempt p ts k a st))) = start_time st
   \<and> end_time (fst (snd (one_attempt p ts k a st))) = end_time st"
  by (auto simp: unit_defs split: unit_splits)

lemma retry_loop_times:
  "start_time (fst (snd (retry_loop p ts w ks st))) = start_time st
   \<and> end_time (fst (snd (retry_loop p ts w ks st))) = end_time st"
proof (induction ks arbitrary: st)
  case Nil
  show ?case by simp
next
  case (Cons j ks)
  obtain fl st1 log1 where oa: "one_attempt p ts j (w j) st = (fl, st1, log1)"
    by (cases "one_attempt p ts j (w j) st") auto
  obtain r2 st2 log2 where rl: "retry_loop p ts w ks st1 = (r2, st2, log2)"
    by (cases "retry_loop p ts w ks st1") auto
  have "start_time st1 = start_time st \<and> end_time st1 = end_time st"
    using one_attempt_times[of p ts j "w j" st] oa by simp
  moreover have "start_time st2 = start_time st1 \<and> end_time st2 = end_time st1"
    using Cons.IH[of st1] rl by simp
  ultimately show ?case
    by (cases fl) (simp_all add: oa rl)
qed

lemma gather_units_times:
  "start_time (snd (gather_units bw i ps st)) = start_time st
   \<and> end_time (snd (gather_units bw i ps st)) = end_time st"
proof (induction ps arbitrary: i st)
  case Nil
  show ?case by simp
next
  case (Cons p ps)
  obtain r st1 log where u:
    "get_article_detail_with_retry p (clock bw i) (fetch bw i) st = (r, st1, log)"
    by (cases "get_article_detail_with_retry p (clock bw i) (fetch bw i) st") auto
  obtain rs st2 where g: "gather_units bw (Suc i) ps st1 = (rs, st2)"
    by (cases "gather_units bw (Suc i) ps st1") auto
  have "start_time st1 = start_time st \<and> end_time st1 = end_time st"
    using retry_loop_times[of p "clock bw i" "fetch bw i" "[0..<MAX_RETRIES + 1]" st] u
    by (simp add: get_article_detail_with_retry_def)
  moreover have "start_time st2 = start_time st1 \<and> end_time st2 = end_time st1"
    using Cons.IH[of "Suc i" st1] g by simp
  ultimately show ?case
    by (simp add: u g)
qed

lemma process_board_times:
  "start_time (snd (process_board b bw st)) = start_time st
   \<and> end_time (snd (process_board b bw st)) = end_time st"
proof (cases "get_board_posts b (listing bw)")
  case (Inl e)
  then show ?thesis by (simp add: process_board_def)
next
  case (Inr posts)
  obtain results st1 where g: "gather_units bw 0 posts st = (results, st1)"
    by (cases "gather_units bw 0 posts st") auto
  obtain articles st2 where k: "keep_results results [] st1 = (articles, st2)"
    by (cases "keep_results results [] st1") auto
  have "start_time st1 = start_time st \<and> end_time st1 = end_time st"
    using gather_units_times[of bw 0 posts st] g by simp
  moreover have "start_time st2 = start_time st1 \<and> end_time st2 = end_time st1"
    using keep_results_counters(2,3)[of results "[]" st1] k by simp
  ultimately show ?thesis
    using Inr g k by (simp add: process_board_def)
qed

lemma gather_boards_times:
  "start_time (snd (gather_boards bws i bs st)) = start_time st
   \<and> end_time (snd (gather_boards bws i bs st)) = end_time st"
proof (induction bs arbitrary: i st)
  case Nil
  show ?case by simp
next
  case (Cons b bs)
  obtain r st1 where p: "process_board b (bws i) st = (r, st1)"
    by (cases "process_board b (bws i) st") auto
  obtain rs st2 where g: "gather_boards bws (Suc i) bs st1 = (rs, st2)"
    by (cases "gather_boards bws (Suc i) bs st1") auto
  have "start_time st1 = start_time st \<and> end_time st1 = end_time st"
    using process_board_times[of b "bws i" st] p by simp
  moreover have "start_time st2 = start_time st1 \<and> end_time st2 = end_time st1"
    using Cons.IH[of "Suc i" st1] g by simp
  ultimately show ?case
    by (simp add: p g)
qed

subsection \<open>The boards of a run\<close>

lemma gather_boards_results:
  "fst (gather_boards bws i bs st) =
     map (\<lambda>(j, b). board_result b (bws j)) (zip [i..<i + length bs] bs)"
proof (induction bs arbitrary: i st)
  case Nil
  show ?case by simp
next
  case (Cons b bs)
  obtain r st1 where p: "process_board b (bws i) st = (r, st1)"
    by (cases "process_board b (bws i) st") auto
  obtain rs st2 where g: "gather_boards bws (Suc i) bs st1 = (rs, st2)"
    by (cases "gather_boards bws (Suc i) bs st1") auto
  have r: "r = board_result b (bws i)"
    using board_result_indep[of b "bws i" st] p by simp
  have rs: "rs = map (\<lambda>(j, b). board_result b (bws j)) (zip [Suc i..<Suc i + length bs] bs)"
    using Cons.IH[of "Suc i" st1] g by simp
  have "[i..<i + length (b # bs)] = i # [Suc i..<Suc i + length bs]"
    by (simp add: upt_rec)
  then show ?case
    using p g r rs by simp
qed

text \<open>A board has results exactly when its listing gives a post.\<close>

lemma board_result_shape:
  "\<exists>arts. board_result b bw = Inr (name b, arts) \<and>
     (arts \<noteq> [] \<longleftrightarrow> (\<exists>posts. get_board_posts b (listing bw) = Inr posts \<and> posts \<noteq> []))"
proof (cases "get_board_posts b (listing bw)")
  case (Inl e)
  then show ?thesis
    by (simp add: board_result_def process_board_def)
next
  case (Inr posts)
  from listed_units_all_Inr[OF Inr, of bw 0] obtain arts where
    len: "length arts = length posts"
    and rs: "map (\<lambda>(j, p). unit_result p (clock bw j) (fetch bw j))
               (zip [0..<length posts] posts) = map Inr arts"
    by auto
  have "board_result b bw = Inr (name b, arts)"
    using process_board_listed[OF Inr rs, of init_stats] by (simp add: board_result_def)
  moreover have "arts \<noteq> [] \<longleftrightarrow> posts \<noteq> []"
    using len by auto
  ultimately show ?thesis
    using Inr by simp
qed

lemma collect_empty_iff:
  "collect rs bd = [] \<longleftrightarrow>
     bd = [] \<and> (\<forall>r\<in>set rs. case r of Inl e \<Rightarrow> True | Inr (n, arts) \<Rightarrow> arts = [])"
  by (induction rs bd rule: collect.induct) auto

text \<open>What \<open>crawl_all_boards\<close> returns, and the times it leaves in the counters.\<close>

lemma crawl_all_boards_result:
  "fst (crawl_all_boards w st) =
     (case get_hotboards (discovery w) of
        Inl e \<Rightarrow> Inl e
      | Inr boards \<Rightarrow>
          Inr (collect (map (\<lambda>(j, b). board_result b (boards_w w j))
                         (zip [0..<length boards] boards)) []))"
proof (cases "get_hotboards (discovery w)")
  case (Inl e)
  then show ?thesis by (simp add: crawl_all_boards_def)
next
  case (Inr boards)
  obtain results st1 where g:
    "gather_boards (boards_w w) 0 boards (st\<lparr>start_time := Some (t_start w)\<rparr>) = (results, st1)"
    by (cases "gather_boards (boards_w w) 0 boards (st\<lparr>start_time := Some (t_start w)\<rparr>)") auto
  have "results = map (\<lambda>(j, b). board_result b (boards_w w j)) (zip [0..<length boards] boards)"
    using gather_boards_results[of "boards_w w" 0 boards "st\<lparr>start_time := Some (t_start w)\<rparr>"] g
    by simp
  then show ?thesis
    using Inr g by (cases "boards = []") (simp_all add: crawl_all_boards_def)
qed

lemma crawl_all_boards_times:
  assumes "crawl_all_boards w st = (Inr bd, st')" and "bd \<noteq> []"
  shows "start_time st' = Some (t_start w) \<and> end_time st' = Some (t_end w)"
proof -
  obtain boards where b: "get_hotboards (discovery w) = Inr boards"
    using assms(1) by (cases "get_hotboards (discovery w)") (auto simp: crawl_all_boards_def)
  have ne: "boards \<noteq> []"
    using assms b by (auto simp: crawl_all_boards_def)
  obtain results st1 where g:
    "gather_boards (boards_w w) 0 boards (st\<lparr>start_time := Some (t_start w)\<rparr>) = (results, st1)"
    by (cases "gather_boards (boards_w w) 0 boards (st\<lparr>start_time := Some (t_start w)\<rparr>)") auto
  have "start_time st1 = Some (t_start w)"
    using gather_boards_times[of "boards_w w" 0 boards "st\<lparr>start_time := Some (t_start w)\<rparr>"] g
    by simp
  moreover have "st' = st1\<lparr>end_time := Some (t_end w)\<rparr>"
    using assms(1) b ne g by (simp add: crawl_all_boards_def)
  ultimately show ?thesis by simp
qed

text \<open>\<open>run\<close> returns \<open>True\<close> exactly when \<open>boards_data\<close> is not empty.\<close>

lemma run_success:
  "fst (run w st) \<longleftrightarrow> (\<exists>bd. fst (crawl_all_boards w st) = Inr bd \<and> bd \<noteq> [])"
proof -
  obtain r st' where c: "crawl_all_boards w st = (r, st')"
    by (cases "crawl_all_boards w st") auto
  show ?thesis
  proof (cases r)
    case (Inl e)
    then show ?thesis using c by (simp add: run_def)
  next
    case (Inr bd)
    show ?thesis
    proof (cases "bd = []")
      case True
      then show ?thesis using c Inr by (simp add: run_def)
    next
      case False
      then have "start_time st' = Some (t_start w) \<and> end_time st' = Some (t_end w)"
        using crawl_all_boards_times[of w st bd st'] c Inr by simp
      then show ?thesis using c Inr False by (simp add: run_def)
    qed
  qed
qed

lemma set_indexed_map:
  "set (map (\<lambda>(j, b). f j b) (zip [0..<length bs] bs)) = {f i (bs ! i) | i. i < length bs}"
proof -
  have "map (\<lambda>(j, b). f j b) (zip [0..<length bs] bs) = map (\<lambda>i. f i (bs ! i)) [0..<length bs]"
    by (rule nth_equalityI) simp_all
  then show ?thesis by auto
qed

lemma collect_nonempty_iff:
  "collect rs [] \<noteq> [] \<longleftrightarrow>
     (\<exists>r\<in>set rs. \<not> (case r of Inl e \<Rightarrow> True | Inr (n, arts) \<Rightarrow> arts = []))"
  by (simp only: collect_empty_iff) simp

lemma board_result_nonempty:
  "\<not> (case board_result b bw of Inl e \<Rightarrow> True | Inr (n, arts) \<Rightarrow> arts = [])
     \<longleftrightarrow> (\<exists>posts. get_board_posts b (listing bw) = Inr posts \<and> posts \<noteq> [])"
  using board_result_shape[of b bw] by auto

lemma boards_data_nonempty:
  "collect (map (\<lambda>(j, b). board_result b (boards_w w j)) (zip [0..<length boards] boards)) []
     \<noteq> []
   \<longleftrightarrow> (\<exists>i<length boards. \<exists>posts.
          get_board_posts (boards ! i) (listing (boards_w w i)) = Inr posts \<and> posts \<noteq> [])"
  unfolding collect_nonempty_iff
    set_indexed_map[of "\<lambda>j b. board_result b (boards_w w j)" boards]
  using board_result_nonempty by auto

subsection \<open>The clock enters the results only as \<open>crawl_time\<close>\<close>

lemma delete_dict_with:
  "AList.delete k (dict_with d items) =
     dict_with (AList.delete k d) (filter (\<lambda>(k', v). k' \<noteq> k) items)"
  unfolding dict_with_def
proof (induction items arbitrary: d)
  case Nil
  show ?case by simp
next
  case (Cons kv items)
  obtain k' v where kv: "kv = (k', v)" by (cases kv)
  show ?case
    by (cases "k' = k") (simp_all add: kv Cons.IH delete_update delete_update_same)
qed

lemma erase_time_success:
  "erase_time (success_record p pc ts k) = erase_time (success_record p pc ts' k)"
  by (simp add: erase_time_def success_record_def delete_dict_with)

text \<open>A pass with another clock reading ends the same way, up to \<open>crawl_time\<close>.\<close>

lemma one_attempt_clock:
  "(case fst (one_attempt p ts k a st) of Return art \<Rightarrow> Return (erase_time art) | fl \<Rightarrow> fl)
     = (case fst (one_attempt p ts' k a st) of Return art \<Rightarrow> Return (erase_time art) | fl \<Rightarrow> fl)
   \<and> snd (one_attempt p ts k a st) = snd (one_attempt p ts' k a st)"
  using erase_time_success[of p _ ts k ts']
  by (auto simp: unit_defs split: unit_splits)

lemma retry_loop_clock:
  "erase_outcome (fst (retry_loop p ts w ks st))
     = erase_outcome (fst (retry_loop p ts' w ks st))
   \<and> snd (retry_loop p ts w ks st) = snd (retry_loop p ts' w ks st)"
proof (induction ks arbitrary: st)
  case Nil
  show ?case by simp
next
  case (Cons j ks)
  obtain fl st1 log1 where oa: "one_attempt p ts j (w j) st = (fl, st1, log1)"
    by (cases "one_attempt p ts j (w j) st") auto
  obtain fl' st1' log1' where oa': "one_attempt p ts' j (w j) st = (fl', st1', log1')"
    by (cases "one_attempt p ts' j (w j) st") auto
  have s: "st1' = st1" "log1' = log1"
    and f: "(case fl of Return art \<Rightarrow> Return (erase_time art) | fl \<Rightarrow> fl)
             = (case fl' of Return art \<Rightarrow> Return (erase_time art) | fl \<Rightarrow> fl)"
    using one_attempt_clock[of p ts j "w j" st ts'] oa oa' by auto
  obtain r2 st2 log2 where rl: "retry_loop p ts w ks st1 = (r2, st2, log2)"
    by (cases "retry_loop p ts w ks st1") auto
  obtain r2' st2' log2' where rl': "retry_loop p ts' w ks st1 = (r2', st2', log2')"
    by (cases "retry_loop p ts' w ks st1") auto
  have ih: "erase_outcome r2 = erase_outcome r2'" "st2' = st2" "log2' = log2"
    using Cons.IH[of st1] by (simp_all add: rl rl')
  show ?case
    using f ih by (cases fl; cases fl') (simp_all add: oa oa' s rl rl' erase_outcome_def)
qed

lemma unit_result_clock:
  "erase_outcome (unit_result p ts w) = erase_outcome (unit_result p ts' w)"
  using retry_loop_clock[of p ts w "[0..<MAX_RETRIES + 1]" init_stats ts']
  by (simp add: unit_result_def get_article_detail_with_retry_def)

lemma map_filter_erase:
  "map erase_time (List.map_filter (\<lambda>r. case r of Inl e \<Rightarrow> None | Inr a \<Rightarrow> Some a) rs)
     = List.map_filter (\<lambda>r. case r of Inl e \<Rightarrow> None | Inr a \<Rightarrow> Some a)
         (map erase_outcome rs)"
proof (induction rs)
  case Nil
  show ?case by (simp add: List.map_filter_def)
next
  case (Cons r rs)
  then show ?case by (cases r) (simp_all add: List.map_filter_def erase_outcome_def)
qed

text \<open>Two board worlds with the same pages give the same result up to \<open>crawl_time\<close>.\<close>

lemma board_result_clock:
  assumes "listing bw = listing bw'" and "fetch bw = fetch bw'"
  shows "erase_board (board_result b bw)
           = erase_board (board_result b bw')"
proof (cases "get_board_posts b (listing bw)")
  case (Inl e)
  then show ?thesis
    using assms by (simp add: board_result_def process_board_result erase_board_def)
next
  case (Inr posts)
  have "map erase_outcome
          (map (\<lambda>(j, p). unit_result p (clock bw j) (fetch bw j)) (zip [0..<length posts] posts))
        = map erase_outcome
          (map (\<lambda>(j, p). unit_result p (clock bw' j) (fetch bw' j)) (zip [0..<length posts] posts))"
  proof (intro nth_equalityI)
    fix i
    assume "i < length (map erase_outcome
          (map (\<lambda>(j, p). unit_result p (clock bw j) (fetch bw j)) (zip [0..<length posts] posts)))"
    then have i: "i < length posts" by simp
    have "erase_outcome (unit_result (posts ! i) (clock bw i) (fetch bw i))
            = erase_outcome (unit_result (posts ! i) (clock bw' i) (fetch bw' i))"
      using unit_result_clock[of "posts ! i" "clock bw i" "fetch bw i" "clock bw' i"] assms(2)
      by simp
    then show "map erase_outcome
          (map (\<lambda>(j, p). unit_result p (clock bw j) (fetch bw j)) (zip [0..<length posts] posts)) ! i
        = map erase_outcome
          (map (\<lambda>(j, p). unit_result p (clock bw' j) (fetch bw' j)) (zip [0..<length posts] posts)) ! i"
      using i by simp
  qed simp
  then show ?thesis
    using Inr assms(1)
    by (simp only: board_result_def process_board_result sum.case erase_board_def
        prod.case map_filter_erase)
qed

lemma erase_times_update:
  "erase_times (AList.update n arts bd) = AList.update n (map erase_time arts) (erase_times bd)"
  by (induction bd) (auto simp: erase_times_def)

lemma erase_times_collect:
  "erase_times (collect rs bd)
     = collect (map erase_board rs) (erase_times bd)"
  by (induction rs bd rule: collect.induct)
    (simp_all add: erase_times_update erase_board_def)

lemma erase_times_keys: "map fst (erase_times bd) = map fst bd"
  by (induction bd) (auto simp: erase_times_def)

text \<open>The files handed to the save tasks.\<close>

lemma run_files:
  "fst (snd (run w st)) =
     (case fst (crawl_all_boards w st) of
        Inl e \<Rightarrow> []
      | Inr bd \<Rightarrow>
          if bd = [] then []
          else map (\<lambda>n. n @ ''_improved.csv'') (map fst bd) @ [''crawl_summary_improved.json''])"
proof -
  obtain r st' where c: "crawl_all_boards w st = (r, st')"
    by (cases "crawl_all_boards w st") auto
  show ?thesis
  proof (cases r)
    case (Inl e)
    then show ?thesis using c by (simp add: run_def)
  next
    case (Inr bd)
    have m: "map (\<lambda>(board_name, articles). board_name @ ''_improved.csv'') bd
               = map (\<lambda>n. n @ ''_improved.csv'') (map fst bd)"
      by (induction bd) auto
    show ?thesis
    proof (cases "bd = []")
      case True
      then show ?thesis using c Inr by (simp add: run_def)
    next
      case False
      then have "start_time st' = Some (t_start w) \<and> end_time st' = Some (t_end w)"
        using crawl_all_boards_times[of w st bd st'] c Inr by simp
      then show ?thesis using c Inr False m by (simp add: run_def)
    qed
  qed
qed

lemma crawl_clock:
  assumes "discovery w1 = discovery w2"
    and "\<forall>i. listing (boards_w w1 i) = listing (boards_w w2 i)
              \<and> fetch (boards_w w1 i) = fetch (boards_w w2 i)"
  shows "erase_crawl (fst (crawl_all_boards w1 st1))
           = erase_crawl (fst (crawl_all_boards w2 st2))"
proof (cases "get_hotboards (discovery w2)")
  case (Inl e)
  then show ?thesis using assms(1) by (simp add: crawl_all_boards_result erase_crawl_def)
next
  case (Inr boards)
  have "map erase_board
          (map (\<lambda>(j, b). board_result b (boards_w w1 j)) (zip [0..<length boards] boards))
        = map erase_board
          (map (\<lambda>(j, b). board_result b (boards_w w2 j)) (zip [0..<length boards] boards))"
  proof (intro nth_equalityI)
    fix i
    assume "i < length (map erase_board
          (map (\<lambda>(j, b). board_result b (boards_w w1 j)) (zip [0..<length boards] boards)))"
    then have i: "i < length boards" by simp
    have "erase_board (board_result (boards ! i) (boards_w w1 i))
            = erase_board (board_result (boards ! i) (boards_w w2 i))"
      using board_result_clock[of "boards_w w1 i" "boards_w w2 i" "boards ! i"] assms(2) by simp
    then show "map erase_board
          (map (\<lambda>(j, b). board_result b (boards_w w1 j)) (zip [0..<length boards] boards)) ! i
        = map erase_board
          (map (\<lambda>(j, b). board_result b (boards_w w2 j)) (zip [0..<length boards] boards)) ! i"
      using i by simp
  qed simp
  then have "erase_times (collect (map (\<lambda>(j, b). board_result b (boards_w w1 j))
                                   (zip [0..<length boards] boards)) [])
           = erase_times (collect (map (\<lambda>(j, b). board_result b (boards_w w2 j))
                                   (zip [0..<length boards] boards)) [])"
    by (simp only: erase_times_collect)
  then show ?thesis
    using Inr assms(1) by (simp only: crawl_all_boards_result sum.case erase_crawl_def)
qed

subsection \<open>The semaphores\<close>

lemma sum_list_map_update:
  "i < length xs \<Longrightarrow>
     sum_list (map f (xs[i := x])) + f (xs ! i) = sum_list (map f xs) + (f x :: nat)"
proof (induction xs arbitrary: i)
  case Nil
  then show ?case by simp
next
  case (Cons y ys)
  then show ?case by (cases i) auto
qed

lemma filter_length_update:
  "j < length us \<Longrightarrow>
     length (filter P (us[j := u])) + (if P (us ! j) then 1 else 0)
       = length (filter P us) + (if P u then 1 else 0)"
proof (induction us arbitrary: j)
  case Nil
  then show ?case by simp
next
  case (Cons y ys)
  then show ?case by (cases j) auto
qed

lemma list_all_update:
  "list_all P xs \<Longrightarrow> P x \<Longrightarrow> list_all P (xs[i := x])"
  unfolding list_all_iff using set_update_subset_insert[of xs i x] by auto

lemma list_all_nth: "list_all P xs \<Longrightarrow> i < length xs \<Longrightarrow> P (xs ! i)"
  by (simp add: list_all_length)

lemma start_inv: "sched_inv (start n)"
proof -
  have "sum_list (map active_of (replicate n BoardWaiting)) = 0"
    by (induction n) simp_all
  moreover have "list_all task_ok (replicate n BoardWaiting)"
    by (induction n) simp_all
  ultimately show ?thesis by (simp add: sched_inv_def start_def)
qed

text \<open>How a changed task changes the state's sums.\<close>

lemma set_task_inv:
  assumes "sched_inv s" and "i < length (board_tasks s)" and "task_ok t"
    and "b + active_of t = board_sem s + active_of (board_tasks s ! i)"
  shows "sched_inv (set_task i t (s\<lparr>board_sem := b\<rparr>))"
proof -
  have "sum_list (map active_of ((board_tasks s)[i := t])) + active_of (board_tasks s ! i)
          = sum_list (map active_of (board_tasks s)) + active_of t"
    using sum_list_map_update[OF assms(2), of active_of t] .
  then have "b + sum_list (map active_of ((board_tasks s)[i := t])) = CONCURRENT_BOARDS"
    using assms(1,4) by (simp add: sched_inv_def)
  moreover have "list_all task_ok ((board_tasks s)[i := t])"
    using assms(1,3) by (simp add: sched_inv_def list_all_update)
  ultimately show ?thesis by (simp add: sched_inv_def set_task_def)
qed

lemma set_task_inv_same:
  assumes "sched_inv s" and "i < length (board_tasks s)" and "task_ok t"
    and "active_of t = active_of (board_tasks s ! i)"
  shows "sched_inv (set_task i t s)"
  using set_task_inv[OF assms(1,2,3), of "board_sem s"] assms(4) by simp

lemma fire_inv:
  assumes "fire a s = Some s'" and "sched_inv s"
  shows "sched_inv s'"
proof (cases a)
  case (AcquireBoard i)
  then have c: "i < length (board_tasks s)" "board_tasks s ! i = BoardWaiting" "0 < board_sem s"
    and s': "s' = set_task i BoardListing (s\<lparr>board_sem := board_sem s - 1\<rparr>)"
    using assms(1) by (auto simp: fire_def split: if_splits)
  show ?thesis
    unfolding s' using assms(2) c by (intro set_task_inv) simp_all
next
  case (Listed i n)
  then have c: "i < length (board_tasks s)" "board_tasks s ! i = BoardListing"
    and s': "n = 0 \<Longrightarrow> s' = set_task i BoardDone (s\<lparr>board_sem := board_sem s + 1\<rparr>)"
      "n \<noteq> 0 \<Longrightarrow> s' = set_task i
                     (BoardGathering CONCURRENT_ARTICLES (replicate n UnitWaiting)) s"
    using assms(1) by (auto simp: fire_def split: if_splits)
  show ?thesis
  proof (cases "n = 0")
    case True
    show ?thesis
      unfolding s'(1)[OF True] using assms(2) c by (intro set_task_inv) simp_all
  next
    case False
    have "filter (\<lambda>u. u = UnitInFlight) (replicate n UnitWaiting) = []"
      by (induction n) simp_all
    then have "task_ok (BoardGathering CONCURRENT_ARTICLES (replicate n UnitWaiting))"
      by simp
    then show ?thesis
      unfolding s'(2)[OF False] using assms(2) c by (intro set_task_inv_same) simp_all
  qed
next
  case (AcquireArticle i j)
  then obtain v us where c: "i < length (board_tasks s)" "board_tasks s ! i = BoardGathering v us"
    "j < length us" "us ! j = UnitWaiting" "0 < v"
    and s': "s' = set_task i (BoardGathering (v - 1) (us[j := UnitInFlight])) s"
    using assms(1) by (auto simp: fire_def split: if_splits board_task.splits)
  have "task_ok (BoardGathering v us)"
    using list_all_nth[of task_ok "board_tasks s" i] assms(2) c(1,2) by (simp add: sched_inv_def)
  moreover have "length (filter (\<lambda>u. u = UnitInFlight) (us[j := UnitInFlight]))
                   = length (filter (\<lambda>u. u = UnitInFlight) us) + 1"
    using filter_length_update[OF c(3), of "\<lambda>u. u = UnitInFlight" UnitInFlight] c(4) by simp
  ultimately have "task_ok (BoardGathering (v - 1) (us[j := UnitInFlight]))"
    using c(5) by simp
  then show ?thesis
    unfolding s' using assms(2) c by (intro set_task_inv_same) simp_all
next
  case (ReleaseArticle i j)
  then obtain v us where c: "i < length (board_tasks s)" "board_tasks s ! i = BoardGathering v us"
    "j < length us" "us ! j = UnitInFlight"
    and s': "s' = set_task i (BoardGathering (v + 1) (us[j := UnitDone])) s"
    using assms(1) by (auto simp: fire_def split: if_splits board_task.splits)
  have "task_ok (BoardGathering v us)"
    using list_all_nth[of task_ok "board_tasks s" i] assms(2) c(1,2) by (simp add: sched_inv_def)
  moreover have "length (filter (\<lambda>u. u = UnitInFlight) (us[j := UnitDone])) + 1
                   = length (filter (\<lambda>u. u = UnitInFlight) us)"
    using filter_length_update[OF c(3), of "\<lambda>u. u = UnitInFlight" UnitDone] c(4) by simp
  ultimately have "task_ok (BoardGathering (v + 1) (us[j := UnitDone]))"
    by simp
  then show ?thesis
    unfolding s' using assms(2) c by (intro set_task_inv_same) simp_all
next
  case (ReleaseBoard i)
  then obtain v us where c: "i < length (board_tasks s)" "board_tasks s ! i = BoardGathering v us"
    and s': "s' = set_task i BoardDone (s\<lparr>board_sem := board_sem s + 1\<rparr>)"
    using assms(1) by (auto simp: fire_def split: if_splits board_task.splits)
  show ?thesis
    unfolding s' using assms(2) c by (intro set_task_inv) simp_all
qed

lemma schedule_inv:
  "schedule as s = Some s' \<Longrightarrow> sched_inv s \<Longrightarrow> sched_inv s'"
proof (induction as arbitrary: s)
  case Nil
  then show ?case by simp
next
  case (Cons a as)
  then obtain s1 where f: "fire a s = Some s1" and r: "schedule as s1 = Some s'"
    by (auto split: option.splits)
  show ?case
    using Cons.IH[OF r] fire_inv[OF f Cons.prems(2)] .
qed

lemma task_bound: "task_ok t \<Longrightarrow> in_flight_of t \<le> CONCURRENT_ARTICLES * active_of t"
  by (cases t) auto

lemma inv_bound:
  assumes "sched_inv s"
  shows "in_flight s \<le> CONCURRENT_BOARDS * CONCURRENT_ARTICLES"
proof -
  have ok: "\<forall>t\<in>set (board_tasks s). task_ok t"
    using assms by (simp add: sched_inv_def list_all_iff)
  have "sum_list (map in_flight_of ts) \<le> CONCURRENT_ARTICLES * sum_list (map active_of ts)"
    if "\<forall>t\<in>set ts. task_ok t" for ts
    using that
  proof (induction ts)
    case Nil
    show ?case by simp
  next
    case (Cons t ts)
    have "in_flight_of t \<le> CONCURRENT_ARTICLES * active_of t"
      using Cons.prems task_bound by simp
    moreover have "sum_list (map in_flight_of ts)
                     \<le> CONCURRENT_ARTICLES * sum_list (map active_of ts)"
      using Cons by simp
    ultimately show ?case by (simp add: distrib_left)
  qed
  then have "in_flight s \<le> CONCURRENT_ARTICLES * sum_list (map active_of (board_tasks s))"
    using ok by (simp add: in_flight_def)
  also have "\<dots> \<le> CONCURRENT_ARTICLES * CONCURRENT_BOARDS"
    using assms by (simp add: sched_inv_def)
  finally show ?thesis by (simp add: mult.commute)
qed

lemma schedule_take:
  "schedule as s = Some s' \<Longrightarrow> \<exists>s1. schedule (take k as) s = Some s1"
proof (induction as arbitrary: s k)
  case Nil
  then show ?case by simp
next
  case (Cons a as)
  then obtain s1 where f: "fire a s = Some s1" and r: "schedule as s1 = Some s'"
    by (auto split: option.splits)
  show ?case
  proof (cases k)
    case 0
    then show ?thesis by simp
  next
    case (Suc m)
    then show ?thesis using Cons.IH[OF r, of m] f by simp
  qed
qed

lemma inv_gates:
  assumes "sched_inv s"
  shows "sum_list (map active_of (board_tasks s)) \<le> CONCURRENT_BOARDS"
    and "list_all (\<lambda>t. in_flight_of t \<le> CONCURRENT_ARTICLES) (board_tasks s)"
proof -
  show "sum_list (map active_of (board_tasks s)) \<le> CONCURRENT_BOARDS"
    using assms by (simp add: sched_inv_def)
  have "in_flight_of t \<le> CONCURRENT_ARTICLES" if "task_ok t" for t
    using that by (cases t) auto
  then show "list_all (\<lambda>t. in_flight_of t \<le> CONCURRENT_ARTICLES) (board_tasks s)"
    using assms by (simp add: sched_inv_def list_all_iff)
qed

section \<open>The claims about the article unit\<close>

lemma upt_3: "[0..<3] = [0, 1, 2::nat]"
  by (simp add: upt_rec)

lemmas eval_defs = get_article_detail_with_retry_def upt_3 one_attempt_def attempt_body_def
  on_exception_def handle_page_setup_def title_prefix_def dict_get_def
  error_record_def failed_record_def success_record_def dict_with_def spread_def
  MAX_RETRIES_def PAGE_TIMEOUT_def RETRY_DELAY_def REQUEST_DELAY_def init_stats_def
  page_text_def strip_def isspace_def page_loads_def attempt_fails_def attempts_made_def
  reaches_setup_def

lemmas demo_defs = demo_post_def page_ok_def page_goto_raises_def page_setup_fails_def
  page_detail_raises_def fetch_never_def fetch_second_def fetch_no_content_def fetch_ok_def

text \<open>
  C4.  Every dictionary the unit returns carries a \<open>retry_count\<close> of at most
  \<open>MAX_RETRIES\<close>.  When its status is \<open>success\<close>, the \<open>retry_count\<close> is the index of the
  first attempt in which the page loaded, and the attempts made are exactly those up to
  that index: none is made after the success.
\<close>

theorem retry_count_bounded:
  assumes "get_article_detail_with_retry p ts w st = (Inr art, st', log)"
  shows "\<exists>r. r \<le> MAX_RETRIES \<and> dict_get art ''retry_count'' = Some (Num (int r)) \<and>
           (dict_get art ''status'' = Some (Str ''success'') \<longrightarrow>
              page_loads (w r) \<and> (\<forall>j<r. \<not> page_loads (w j))
              \<and> attempts_made log = [0..<Suc r])"
proof -
  from unit_shape[OF assms, of st] obtain k where k: "k \<le> MAX_RETRIES"
    and am: "attempts_made log = [0..<Suc k]"
    and pre: "\<forall>j<k. attempt_fails p (w j)"
    and fin: "(\<exists>pc. art = success_record p pc ts k \<and> \<not> attempt_fails p (w k))
              \<or> (k = MAX_RETRIES \<and> (art = failed_record p k \<or> (\<exists>e. art = error_record p e k)))"
    by auto
  from fin show ?thesis
  proof
    assume "\<exists>pc. art = success_record p pc ts k \<and> \<not> attempt_fails p (w k)"
    then obtain pc where art: "art = success_record p pc ts k"
      and ok: "page_loads (w k)" "dict_get p ''link'' \<noteq> None"
      by (auto simp: attempt_fails_def)
    have "\<forall>j<k. \<not> page_loads (w j)"
      using pre ok(2) by (simp add: attempt_fails_def)
    then show ?thesis
      using k am ok(1) art by (intro exI[of _ k]) (simp add: dict_get_success_record)
  next
    assume "k = MAX_RETRIES \<and> (art = failed_record p k \<or> (\<exists>e. art = error_record p e k))"
    then show ?thesis
      by (intro exI[of _ k]) (auto simp: dict_get_failed_record dict_get_error_record)
  qed
qed

theorem retry_count_bounded_witness:
  "get_article_detail_with_retry demo_post ''2025-11-04 10:00:00'' fetch_second init_stats =
     (Inr [(''title'', Str ''[News] Finals''),
           (''link'', Str ''https://www.ptt.cc/bbs/NBA/M.1.A.html''),
           (''author'', Str ''bob''), (''date'', Str ''11/04''), (''board'', Str ''NBA''),
           (''content'', Str ''game seven''), (''pushes'', Num 7),
           (''status'', Str ''success''), (''crawl_time'', Str ''2025-11-04 10:00:00''),
           (''retry_count'', Num 1)],
      init_stats\<lparr>articles_retried := 1\<rparr>,
      [(0, NewPage), (0, Goto ''https://www.ptt.cc/bbs/NBA/M.1.A.html'' 30000),
       (0, WaitLoadState 10000), (0, Sleep 3),
       (1, NewPage), (1, Goto ''https://www.ptt.cc/bbs/NBA/M.1.A.html'' 30000),
       (1, WaitLoadState 15000), (1, WaitSelector ''#main-content'' 15000), (1, Sleep 1)])
   \<and> page_loads (fetch_second 1) \<and> \<not> page_loads (fetch_second 0)"
proof -
  have run: "get_article_detail_with_retry demo_post ''2025-11-04 10:00:00'' fetch_second
      init_stats =
     (Inr [(''title'', Str ''[News] Finals''),
           (''link'', Str ''https://www.ptt.cc/bbs/NBA/M.1.A.html''),
           (''author'', Str ''bob''), (''date'', Str ''11/04''), (''board'', Str ''NBA''),
           (''content'', Str ''game seven''), (''pushes'', Num 7),
           (''status'', Str ''success''), (''crawl_time'', Str ''2025-11-04 10:00:00''),
           (''retry_count'', Num 1)],
      init_stats\<lparr>articles_retried := 1\<rparr>,
      [(0, NewPage), (0, Goto ''https://www.ptt.cc/bbs/NBA/M.1.A.html'' 30000),
       (0, WaitLoadState 10000), (0, Sleep 3),
       (1, NewPage), (1, Goto ''https://www.ptt.cc/bbs/NBA/M.1.A.html'' 30000),
       (1, WaitLoadState 15000), (1, WaitSelector ''#main-content'' 15000), (1, Sleep 1)])"
    by (simp add: eval_defs demo_defs)
  from retry_count_bounded[OF run] obtain r where
    r: "dict_get [(''title'', Str ''[News] Finals''),
           (''link'', Str ''https://www.ptt.cc/bbs/NBA/M.1.A.html''),
           (''author'', Str ''bob''), (''date'', Str ''11/04''), (''board'', Str ''NBA''),
           (''content'', Str ''game seven''), (''pushes'', Num 7),
           (''status'', Str ''success''), (''crawl_time'', Str ''2025-11-04 10:00:00''),
           (''retry_count'', Num 1)] ''retry_count'' = Some (Num (int r))"
    and l: "page_loads (fetch_second r)" "\<forall>j<r. \<not> page_loads (fetch_second j)"
    by (auto simp: dict_get_def)
  from r have "r = 1" by (simp add: dict_get_def)
  with l run show ?thesis by simp
qed




text \<open>
  C2, as stated, fails.  A post whose every navigation times out is retried twice; the
  third exception is turned into a dictionary with status \<open>error\<close> and
  \<open>retry_count = 2\<close>, not into a failure with \<open>retries_used = 0\<close>.
\<close>

theorem unit_error_counterexample:
  "fst (get_article_detail_with_retry demo_post ''2025-11-04 10:00:00'' fetch_never init_stats) =
     Inr [(''title'', Str ''[News] Finals''),
          (''link'', Str ''https://www.ptt.cc/bbs/NBA/M.1.A.html''),
          (''author'', Str ''bob''), (''date'', Str ''11/04''), (''board'', Str ''NBA''),
          (''content'', Str []), (''pushes'', Num 0), (''status'', Str ''error''),
          (''error'', Str ''Timeout 30000ms exceeded''), (''retry_count'', Num 2)]
   \<and> attempts_made
        (snd (snd (get_article_detail_with_retry demo_post ''2025-11-04 10:00:00'' fetch_never
           init_stats))) = [0, 1, 2]"
  by (simp add: eval_defs demo_defs)

text \<open>
  C2, amended.  For a post with a title no exception leaves the unit: it returns a
  dictionary.  An exception raised in an attempt is caught inside the unit: before the
  last attempt it is followed by the retry delay and the next attempt; in attempt
  \<open>MAX_RETRIES\<close> it becomes the result with status \<open>error\<close>, the exception's text under
  \<open>error\<close>, and \<open>retry_count = MAX_RETRIES\<close>.
\<close>

theorem unit_errors_caught:
  assumes "get_article_detail_with_retry p ts w st = (r, st', log)"
    and "dict_get p ''title'' \<noteq> None"
  shows "(\<exists>art. r = Inr art) \<and>
         (\<forall>k e. k \<in> set (attempts_made log) \<and> fst (attempt_body p ts k (w k) st) = Raise e
            \<longrightarrow> (if k < MAX_RETRIES
                 then (k, Sleep RETRY_DELAY) \<in> set log \<and> Suc k \<in> set (attempts_made log)
                 else r = Inr (error_record p e MAX_RETRIES)
                      \<and> dict_get (error_record p e MAX_RETRIES) ''status'' = Some (Str ''error'')
                      \<and> dict_get (error_record p e MAX_RETRIES) ''error'' = Some (Str (str_exn e))
                      \<and> dict_get (error_record p e MAX_RETRIES) ''retry_count''
                          = Some (Num (int MAX_RETRIES))))"
proof -
  from unit_shape[OF assms(1), of st] obtain k where k: "k \<le> MAX_RETRIES"
    and am: "attempts_made log = [0..<Suc k]"
    and pre: "\<forall>j<k. (j, Sleep RETRY_DELAY) \<in> set log"
    and fin: "(\<exists>pc. r = Inr (success_record p pc ts k)
                 \<and> fst (attempt_body p ts k (w k) st) = Return (success_record p pc ts k))
            \<or> (k = MAX_RETRIES
                 \<and> ((r = Inr (failed_record p k)
                       \<and> fst (attempt_body p ts k (w k) st) = Return (failed_record p k))
                     \<or> (\<exists>e. r = Inr (error_record p e k)
                           \<and> fst (attempt_body p ts k (w k) st) = Raise e)))"
    using assms(2) by auto
  have "\<exists>art. r = Inr art" using fin by auto
  moreover have "\<forall>j e. j \<in> set (attempts_made log) \<and> fst (attempt_body p ts j (w j) st) = Raise e
            \<longrightarrow> (if j < MAX_RETRIES
                 then (j, Sleep RETRY_DELAY) \<in> set log \<and> Suc j \<in> set (attempts_made log)
                 else r = Inr (error_record p e MAX_RETRIES)
                      \<and> dict_get (error_record p e MAX_RETRIES) ''status'' = Some (Str ''error'')
                      \<and> dict_get (error_record p e MAX_RETRIES) ''error'' = Some (Str (str_exn e))
                      \<and> dict_get (error_record p e MAX_RETRIES) ''retry_count''
                          = Some (Num (int MAX_RETRIES)))"
  proof (intro allI impI)
    fix j e
    assume a: "j \<in> set (attempts_made log) \<and> fst (attempt_body p ts j (w j) st) = Raise e"
    then have jk: "j \<le> k" using am by auto
    show "if j < MAX_RETRIES
          then (j, Sleep RETRY_DELAY) \<in> set log \<and> Suc j \<in> set (attempts_made log)
          else r = Inr (error_record p e MAX_RETRIES)
               \<and> dict_get (error_record p e MAX_RETRIES) ''status'' = Some (Str ''error'')
               \<and> dict_get (error_record p e MAX_RETRIES) ''error'' = Some (Str (str_exn e))
               \<and> dict_get (error_record p e MAX_RETRIES) ''retry_count''
                   = Some (Num (int MAX_RETRIES))"
    proof (cases "j < k")
      case True
      then have "j < MAX_RETRIES" "Suc j \<in> set (attempts_made log)"
        "(j, Sleep RETRY_DELAY) \<in> set log"
        using k am pre by auto
      then show ?thesis by simp
    next
      case False
      then have "j = k" using jk by simp
      then have "k = MAX_RETRIES \<and> r = Inr (error_record p e k)"
        using fin a by auto
      then show ?thesis
        using \<open>j = k\<close> by (simp add: dict_get_error_record)
    qed
  qed
  ultimately show ?thesis by blast
qed

theorem unit_errors_caught_witness:
  "get_article_detail_with_retry demo_post ''2025-11-04 10:00:00'' fetch_never init_stats =
     (Inr (error_record demo_post (Error ''Timeout 30000ms exceeded'') MAX_RETRIES),
      init_stats\<lparr>articles_retried := 2, errors := 1\<rparr>,
      [(0, NewPage), (0, Goto ''https://www.ptt.cc/bbs/NBA/M.1.A.html'' 30000), (0, Sleep 3),
       (1, NewPage), (1, Goto ''https://www.ptt.cc/bbs/NBA/M.1.A.html'' 30000), (1, Sleep 3),
       (2, NewPage), (2, Goto ''https://www.ptt.cc/bbs/NBA/M.1.A.html'' 30000)])
   \<and> dict_get demo_post ''title'' \<noteq> None
   \<and> fst (attempt_body demo_post ''2025-11-04 10:00:00'' 2 (fetch_never 2) init_stats)
       = Raise (Error ''Timeout 30000ms exceeded'')
   \<and> dict_get (error_record demo_post (Error ''Timeout 30000ms exceeded'') MAX_RETRIES)
        ''retry_count'' = Some (Num (int MAX_RETRIES))
   \<and> fst (attempt_body demo_post ''2025-11-04 10:00:00'' 0 (fetch_never 0) init_stats)
       = Raise (Error ''Timeout 30000ms exceeded'')
   \<and> (0, Sleep RETRY_DELAY) \<in> set
       [(0, NewPage), (0, Goto ''https://www.ptt.cc/bbs/NBA/M.1.A.html'' 30000), (0, Sleep 3),
        (1, NewPage), (1, Goto ''https://www.ptt.cc/bbs/NBA/M.1.A.html'' 30000), (1, Sleep 3),
        (2, NewPage), (2, Goto ''https://www.ptt.cc/bbs/NBA/M.1.A.html'' 30000)]"
proof -
  have run: "get_article_detail_with_retry demo_post ''2025-11-04 10:00:00'' fetch_never
      init_stats =
     (Inr (error_record demo_post (Error ''Timeout 30000ms exceeded'') MAX_RETRIES),
      init_stats\<lparr>articles_retried := 2, errors := 1\<rparr>,
      [(0, NewPage), (0, Goto ''https://www.ptt.cc/bbs/NBA/M.1.A.html'' 30000), (0, Sleep 3),
       (1, NewPage), (1, Goto ''https://www.ptt.cc/bbs/NBA/M.1.A.html'' 30000), (1, Sleep 3),
       (2, NewPage), (2, Goto ''https://www.ptt.cc/bbs/NBA/M.1.A.html'' 30000)])"
    by (simp add: eval_defs demo_defs)
  have title: "dict_get demo_post ''title'' \<noteq> None"
    by (simp add: dict_get_def demo_post_def)
  have b2: "fst (attempt_body demo_post ''2025-11-04 10:00:00'' 2 (fetch_never 2) init_stats)
       = Raise (Error ''Timeout 30000ms exceeded'')"
    by (simp add: eval_defs demo_defs)
  have b0: "fst (attempt_body demo_post ''2025-11-04 10:00:00'' 0 (fetch_never 0) init_stats)
       = Raise (Error ''Timeout 30000ms exceeded'')"
    by (simp add: eval_defs demo_defs)
  have in2: "2 \<in> set (attempts_made
       [(0, NewPage), (0, Goto ''https://www.ptt.cc/bbs/NBA/M.1.A.html'' 30000), (0, Sleep 3),
        (1, NewPage), (1, Goto ''https://www.ptt.cc/bbs/NBA/M.1.A.html'' 30000), (1, Sleep 3),
        (2, NewPage), (2, Goto ''https://www.ptt.cc/bbs/NBA/M.1.A.html'' 30000)])"
    "0 \<in> set (attempts_made
       [(0, NewPage), (0, Goto ''https://www.ptt.cc/bbs/NBA/M.1.A.html'' 30000), (0, Sleep 3),
        (1, NewPage), (1, Goto ''https://www.ptt.cc/bbs/NBA/M.1.A.html'' 30000), (1, Sleep 3),
        (2, NewPage), (2, Goto ''https://www.ptt.cc/bbs/NBA/M.1.A.html'' 30000)])"
    by (simp_all add: attempts_made_def)
  note inst = unit_errors_caught[OF run title, THEN conjunct2, rule_format]
  have "dict_get (error_record demo_post (Error ''Timeout 30000ms exceeded'') MAX_RETRIES)
        ''retry_count'' = Some (Num (int MAX_RETRIES))"
    using inst[of 2 "Error ''Timeout 30000ms exceeded''"] in2(1) b2
    by (simp add: MAX_RETRIES_def)
  moreover have "(0, Sleep RETRY_DELAY) \<in> set
       [(0, NewPage), (0, Goto ''https://www.ptt.cc/bbs/NBA/M.1.A.html'' 30000), (0, Sleep 3),
        (1, NewPage), (1, Goto ''https://www.ptt.cc/bbs/NBA/M.1.A.html'' 30000), (1, Sleep 3),
        (2, NewPage), (2, Goto ''https://www.ptt.cc/bbs/NBA/M.1.A.html'' 30000)]"
    using inst[of 0 "Error ''Timeout 30000ms exceeded''"] in2(2) b0
    by (simp add: MAX_RETRIES_def)
  ultimately show ?thesis using run title b2 b0 by blast
qed

text \<open>
  C10, as stated, fails in its list of the added fields: the outcome of a post whose
  content never appears carries the key \<open>error\<close>, which the post does not have and which
  is none of \<open>content\<close>, \<open>pushes\<close>, \<open>status\<close>, \<open>retry_count\<close>, \<open>crawl_time\<close>.
\<close>

theorem outcome_adds_error_counterexample:
  "fst (get_article_detail_with_retry demo_post ''2025-11-04 10:00:00'' fetch_no_content
      init_stats) =
     Inr [(''title'', Str ''[News] Finals''),
          (''link'', Str ''https://www.ptt.cc/bbs/NBA/M.1.A.html''),
          (''author'', Str ''bob''), (''date'', Str ''11/04''), (''board'', Str ''NBA''),
          (''content'', Str []), (''pushes'', Num 0), (''status'', Str ''error''),
          (''error'', Str ''Timeout 15000ms exceeded''), (''retry_count'', Num 2)]
   \<and> dict_get demo_post ''error'' = None"
  by (simp add: eval_defs demo_defs)

text \<open>
  C10, amended.  A dictionary returned by the unit agrees with the post on every key
  other than \<open>content\<close>, \<open>pushes\<close>, \<open>status\<close>, \<open>retry_count\<close>, \<open>crawl_time\<close> and \<open>error\<close>,
  so \<open>title\<close>, \<open>link\<close>, \<open>author\<close>, \<open>date\<close> and \<open>board\<close> are kept unchanged; its keys are
  those of the post, the four result keys, \<open>crawl_time\<close> on a success and \<open>error\<close> on
  an outcome with status \<open>error\<close>.
\<close>

theorem outcome_frame:
  assumes "get_article_detail_with_retry p ts w st = (Inr art, st', log)"
  shows "(\<forall>key. key \<notin> {''content'', ''pushes'', ''status'', ''retry_count'', ''crawl_time'',
                        ''error''}
            \<longrightarrow> dict_get art key = map_option Str (dict_get p key)) \<and>
         fst ` set art =
           fst ` set p \<union> {''content'', ''pushes'', ''status'', ''retry_count''} \<union>
           (if dict_get art ''status'' = Some (Str ''success'') then {''crawl_time''}
            else if dict_get art ''status'' = Some (Str ''error'') then {''error''}
            else {})"
  using unit_frame[OF assms] .

theorem outcome_frame_witness:
  "get_article_detail_with_retry demo_post ''2025-11-04 10:00:00'' fetch_ok init_stats =
     (Inr [(''title'', Str ''[News] Finals''),
           (''link'', Str ''https://www.ptt.cc/bbs/NBA/M.1.A.html''),
           (''author'', Str ''bob''), (''date'', Str ''11/04''), (''board'', Str ''NBA''),
           (''content'', Str ''game seven''), (''pushes'', Num 7),
           (''status'', Str ''success''), (''crawl_time'', Str ''2025-11-04 10:00:00''),
           (''retry_count'', Num 0)],
      init_stats,
      [(0, NewPage), (0, Goto ''https://www.ptt.cc/bbs/NBA/M.1.A.html'' 30000),
       (0, WaitLoadState 10000), (0, WaitSelector ''#main-content'' 15000), (0, Sleep 1)])
   \<and> dict_get [(''title'', Str ''[News] Finals''),
           (''link'', Str ''https://www.ptt.cc/bbs/NBA/M.1.A.html''),
           (''author'', Str ''bob''), (''date'', Str ''11/04''), (''board'', Str ''NBA''),
           (''content'', Str ''game seven''), (''pushes'', Num 7),
           (''status'', Str ''success''), (''crawl_time'', Str ''2025-11-04 10:00:00''),
           (''retry_count'', Num 0)] ''link''
       = map_option Str (dict_get demo_post ''link'')"
proof -
  have run: "get_article_detail_with_retry demo_post ''2025-11-04 10:00:00'' fetch_ok init_stats =
     (Inr [(''title'', Str ''[News] Finals''),
           (''link'', Str ''https://www.ptt.cc/bbs/NBA/M.1.A.html''),
           (''author'', Str ''bob''), (''date'', Str ''11/04''), (''board'', Str ''NBA''),
           (''content'', Str ''game seven''), (''pushes'', Num 7),
           (''status'', Str ''success''), (''crawl_time'', Str ''2025-11-04 10:00:00''),
           (''retry_count'', Num 0)],
      init_stats,
      [(0, NewPage), (0, Goto ''https://www.ptt.cc/bbs/NBA/M.1.A.html'' 30000),
       (0, WaitLoadState 10000), (0, WaitSelector ''#main-content'' 15000), (0, Sleep 1)])"
    by (simp add: eval_defs demo_defs)
  from outcome_frame[OF run, THEN conjunct1, rule_format, of "''link''"] run
  show ?thesis by simp
qed

section \<open>The claims about a board\<close>

lemmas board_eval_defs = process_board_def get_board_posts_def parse_entry_def
  List.map_filter_def ARTICLES_PER_BOARD_def handle_page_setup_def strip_def isspace_def
  listing_fails_def

lemmas board_demo_defs = demo_board_def listing_two_def listing_goto_raises_def
  listing_none_def demo_fetch_def demo_clock_def demo_bw_def bw_listing_fails_def
  bw_no_posts_def

text \<open>
  C3.  For the \<open>N\<close> posts that the listing of a board gives, \<open>process_board\<close> returns
  exactly \<open>N\<close> dictionaries; the one at position \<open>i\<close> is the result of the unit of the
  post at position \<open>i\<close> and carries that post's \<open>title\<close>, \<open>link\<close>, \<open>author\<close>, \<open>date\<close> and
  \<open>board\<close>.  The order is that of \<open>gather\<close>, which returns the results in the order of
  its tasks whatever the order of completion; the semaphore does not enter the result.
\<close>

theorem outcomes_follow_posts:
  assumes "get_board_posts b (listing bw) = Inr posts"
  shows "\<exists>articles. fst (process_board b bw st) = Inr (name b, articles) \<and>
           length articles = length posts \<and>
           (\<forall>i<length posts.
              unit_result (posts ! i) (clock bw i) (fetch bw i) = Inr (articles ! i) \<and>
              (\<forall>key. key \<notin> {''content'', ''pushes'', ''status'', ''retry_count'',
                              ''crawl_time'', ''error''}
                 \<longrightarrow> dict_get (articles ! i) key = map_option Str (dict_get (posts ! i) key)))"
proof -
  from listed_units_all_Inr[OF assms, of bw 0] obtain arts where
    len: "length arts = length posts"
    and rs: "map (\<lambda>(j, p). unit_result p (clock bw j) (fetch bw j))
               (zip [0..<length posts] posts) = map Inr arts"
    by auto
  have res: "fst (process_board b bw st) = Inr (name b, arts)"
    using process_board_listed[OF assms rs] .
  have each: "unit_result (posts ! i) (clock bw i) (fetch bw i) = Inr (arts ! i)"
    if "i < length posts" for i
    using unit_results_nth[OF len rs that] .
  have frame: "dict_get (arts ! i) key = map_option Str (dict_get (posts ! i) key)"
    if "i < length posts"
      and "key \<notin> {''content'', ''pushes'', ''status'', ''retry_count'', ''crawl_time'', ''error''}"
    for i key
    using unit_result_frame[OF each[OF that(1)] that(2)] .
  have "\<forall>i<length posts.
          unit_result (posts ! i) (clock bw i) (fetch bw i) = Inr (arts ! i) \<and>
          (\<forall>key. key \<notin> {''content'', ''pushes'', ''status'', ''retry_count'',
                          ''crawl_time'', ''error''}
             \<longrightarrow> dict_get (arts ! i) key = map_option Str (dict_get (posts ! i) key))"
  proof (intro allI impI conjI)
    fix i assume "i < length posts"
    then show "unit_result (posts ! i) (clock bw i) (fetch bw i) = Inr (arts ! i)"
      by (rule each)
  next
    fix i key
    assume "i < length posts"
      and "key \<notin> {''content'', ''pushes'', ''status'', ''retry_count'', ''crawl_time'',
                      ''error''}"
    then show "dict_get (arts ! i) key = map_option Str (dict_get (posts ! i) key)"
      by (rule frame)
  qed
  then show ?thesis
    by (intro exI[of _ arts] conjI res len)
qed

theorem outcomes_follow_posts_witness:
  "get_board_posts demo_board (listing demo_bw) =
     Inr [[(''title'', ''[News] Finals''), (''link'', ''https://www.ptt.cc/bbs/NBA/M.1.A.html''),
           (''author'', ''bob''), (''date'', ''11/04''), (''board'', ''NBA'')],
          [(''title'', ''Re: [News] Finals''),
           (''link'', ''https://www.ptt.cc/bbs/NBA/M.2.A.html''),
           (''author'', ''amy''), (''date'', ''11/04''), (''board'', ''NBA'')]]
   \<and> (\<exists>articles. fst (process_board demo_board demo_bw init_stats) = Inr (''NBA'', articles)
         \<and> length articles = 2
         \<and> dict_get (articles ! 0) ''link'' = Some (Str ''https://www.ptt.cc/bbs/NBA/M.1.A.html'')
         \<and> dict_get (articles ! 1) ''link'' = Some (Str ''https://www.ptt.cc/bbs/NBA/M.2.A.html''))"
proof -
  have posts: "get_board_posts demo_board (listing demo_bw) =
     Inr [[(''title'', ''[News] Finals''), (''link'', ''https://www.ptt.cc/bbs/NBA/M.1.A.html''),
           (''author'', ''bob''), (''date'', ''11/04''), (''board'', ''NBA'')],
          [(''title'', ''Re: [News] Finals''),
           (''link'', ''https://www.ptt.cc/bbs/NBA/M.2.A.html''),
           (''author'', ''amy''), (''date'', ''11/04''), (''board'', ''NBA'')]]"
    by (simp add: board_eval_defs board_demo_defs)
  from outcomes_follow_posts[OF posts, of init_stats] obtain articles where
    a: "fst (process_board demo_board demo_bw init_stats) = Inr (name demo_board, articles)"
      "length articles = 2"
    and f: "\<forall>i<2. \<forall>key. key \<notin> {''content'', ''pushes'', ''status'', ''retry_count'',
                              ''crawl_time'', ''error''}
                 \<longrightarrow> dict_get (articles ! i) key =
                      map_option Str (dict_get
                        ([[(''title'', ''[News] Finals''),
                           (''link'', ''https://www.ptt.cc/bbs/NBA/M.1.A.html''),
                           (''author'', ''bob''), (''date'', ''11/04''), (''board'', ''NBA'')],
                          [(''title'', ''Re: [News] Finals''),
                           (''link'', ''https://www.ptt.cc/bbs/NBA/M.2.A.html''),
                           (''author'', ''amy''), (''date'', ''11/04''), (''board'', ''NBA'')]] ! i)
                        key)"
    by auto
  have "dict_get (articles ! 0) ''link'' = Some (Str ''https://www.ptt.cc/bbs/NBA/M.1.A.html'')"
    using f[rule_format, of 0 "''link''"] by (simp add: dict_get_def)
  moreover have
    "dict_get (articles ! 1) ''link'' = Some (Str ''https://www.ptt.cc/bbs/NBA/M.2.A.html'')"
    using f[rule_format, of 1 "''link''"] by (simp add: dict_get_def)
  ultimately show ?thesis
    using posts a by (auto simp: demo_board_def)
qed

text \<open>
  C6, as stated, fails in its last part.  A board whose listing fails, and a board whose
  listing is empty, both return before the counter \<open>boards_processed\<close> is incremented:
  they leave every counter as it was.
\<close>

theorem empty_board_not_counted_counterexample:
  "process_board demo_board bw_listing_fails init_stats = (Inr (''NBA'', []), init_stats)
   \<and> process_board demo_board bw_no_posts init_stats = (Inr (''NBA'', []), init_stats)
   \<and> boards_processed init_stats = 0"
  by (simp add: board_eval_defs board_demo_defs init_stats_def)

text \<open>
  C6, amended.  For a board whose listing step fails or gives no post, \<open>process_board\<close>
  still returns the board's name with an empty list (no exception leaves it, so the
  other boards are not disturbed), the loop that fills \<open>boards_data\<close> skips it, and it is
  not counted: \<open>boards_processed\<close> and the article counters are unchanged; \<open>errors\<close> grows
  by one exactly when the listing's page could not be opened.
\<close>

theorem empty_board_result:
  assumes "listing_fails (listing bw) \<or> get_board_posts b (listing bw) = Inr []"
  shows "fst (process_board b bw st) = Inr (name b, []) \<and>
         collect [fst (process_board b bw st)] bd = bd \<and>
         snd (process_board b bw st) =
           (case new_page (listing bw) of
              Raises e \<Rightarrow> st\<lparr>errors := errors st + 1\<rparr>
            | Returns u \<Rightarrow> st) \<and>
         boards_processed (snd (process_board b bw st)) = boards_processed st"
proof -
  from assms listing_fails_posts[of "listing bw" b]
  have "(\<exists>e. get_board_posts b (listing bw) = Inl e) \<or> get_board_posts b (listing bw) = Inr []"
    by blast
  then show ?thesis
  proof
    assume "\<exists>e. get_board_posts b (listing bw) = Inl e"
    then obtain e where e: "get_board_posts b (listing bw) = Inl e" by blast
    then obtain m where "new_page (listing bw) = Raises m"
      by (auto simp: get_board_posts_def split: outcome.splits if_splits)
    then show ?thesis using e by (simp add: process_board_def)
  next
    assume e: "get_board_posts b (listing bw) = Inr []"
    then obtain u where "new_page (listing bw) = Returns u"
      by (auto simp: get_board_posts_def split: outcome.splits if_splits)
    then show ?thesis using e by (simp add: process_board_def)
  qed
qed

theorem empty_board_result_witness:
  "listing_fails (listing bw_listing_fails)
   \<and> fst (process_board demo_board bw_listing_fails init_stats) = Inr (''NBA'', [])
   \<and> collect [fst (process_board demo_board bw_listing_fails init_stats)] [] = []
   \<and> boards_processed (snd (process_board demo_board bw_listing_fails init_stats)) = 0"
proof -
  have f: "listing_fails (listing bw_listing_fails)"
    by (simp add: board_eval_defs board_demo_defs)
  from empty_board_result[OF disjI1, OF f, of demo_board init_stats "[]"] f
  show ?thesis by (simp add: demo_board_def init_stats_def board_demo_defs)
qed

section \<open>The claims about a run\<close>

lemmas run_eval_defs = run_def main_def crawl_all_boards_def get_hotboards_def parse_board_def
  get_default_boards_def NUM_BOARDS_def discovery_degraded_def

lemmas run_demo_defs = discovery_one_def discovery_no_page_def discovery_timeout_def
  later_clock_def fetch_all_never_def bws_all_fail_def world_all_fail_def bws_none_def
  world_no_page_def world_timeout_def bws_at_def world_at_def world_cleanup_raises_def

text \<open>
  C1, as stated, fails.  In a run with one board and two posts whose every attempt
  fails, both outcomes have status \<open>error\<close>, yet \<open>run\<close> returns \<open>True\<close> and the exit code
  is 0.
\<close>

theorem run_all_failed_counterexample:
  "run world_all_fail init_stats =
     (True, [''NBA_improved.csv'', ''crawl_summary_improved.json''],
      \<lparr>boards_processed = 1, articles_crawled = 0, articles_failed = 2,
         articles_retried = 4, errors = 2, start_time = Some 0, end_time = Some 90\<rparr>)
   \<and> main world_all_fail = 0
   \<and> fst (crawl_all_boards world_all_fail init_stats) =
       Inr [(''NBA'',
             [[(''title'', Str ''[News] Finals''),
               (''link'', Str ''https://www.ptt.cc/bbs/NBA/M.1.A.html''),
               (''author'', Str ''bob''), (''date'', Str ''11/04''), (''board'', Str ''NBA''),
               (''content'', Str []), (''pushes'', Num 0), (''status'', Str ''error''),
               (''error'', Str ''Timeout 30000ms exceeded''), (''retry_count'', Num 2)],
              [(''title'', Str ''Re: [News] Finals''),
               (''link'', Str ''https://www.ptt.cc/bbs/NBA/M.2.A.html''),
               (''author'', Str ''amy''), (''date'', Str ''11/04''), (''board'', Str ''NBA''),
               (''content'', Str []), (''pushes'', Num 0), (''status'', Str ''error''),
               (''error'', Str ''Timeout 30000ms exceeded''), (''retry_count'', Num 2)]])]"
  by (simp add: run_eval_defs run_demo_defs board_eval_defs board_demo_defs eval_defs demo_defs)

text \<open>
  C1, amended.  \<open>run\<close> returns \<open>True\<close> exactly when \<open>boards_data\<close> is not empty, that is
  when the listing of at least one board gave at least one post, whatever the status of
  the outcomes.  The exit code is 0 exactly when the browser was launched, \<open>run\<close>
  returned \<open>True\<close> and the \<open>cleanup\<close> on leaving the \<open>async with\<close> block did not raise, and
  1 otherwise: an exception of \<open>cleanup\<close> replaces the \<open>return 0\<close> under way and \<open>main\<close>
  catches it and returns 1.
\<close>

theorem run_success_iff:
  "(fst (run w st) \<longleftrightarrow> (\<exists>bd. fst (crawl_all_boards w st) = Inr bd \<and> bd \<noteq> [])) \<and>
   (fst (run w st) \<longleftrightarrow>
      (\<exists>boards. get_hotboards (discovery w) = Inr boards \<and>
         (\<exists>i<length boards. \<exists>posts.
            get_board_posts (boards ! i) (listing (boards_w w i)) = Inr posts \<and> posts \<noteq> []))) \<and>
   (main w = 0 \<longleftrightarrow>
      (\<exists>u. launch w = Returns u) \<and> fst (run w init_stats) \<and> (\<exists>u. cleanup w = Returns u)) \<and>
   (main w = 0 \<or> main w = 1)"
proof -
  have a: "fst (run w st) \<longleftrightarrow> (\<exists>bd. fst (crawl_all_boards w st) = Inr bd \<and> bd \<noteq> [])" for st
    by (rule run_success)
  have b: "(\<exists>bd. fst (crawl_all_boards w st) = Inr bd \<and> bd \<noteq> []) \<longleftrightarrow>
      (\<exists>boards. get_hotboards (discovery w) = Inr boards \<and>
         (\<exists>i<length boards. \<exists>posts.
            get_board_posts (boards ! i) (listing (boards_w w i)) = Inr posts \<and> posts \<noteq> []))"
  proof (cases "get_hotboards (discovery w)")
    case (Inl e)
    then show ?thesis by (simp add: crawl_all_boards_result)
  next
    case (Inr boards)
    then show ?thesis
      using boards_data_nonempty[of w boards] by (simp add: crawl_all_boards_result)
  qed
  have c: "main w = 0 \<longleftrightarrow>
      (\<exists>u. launch w = Returns u) \<and> fst (run w init_stats) \<and> (\<exists>u. cleanup w = Returns u)"
    by (cases "launch w"; cases "run w init_stats"; cases "cleanup w") (auto simp: main_def)
  have d: "main w = 0 \<or> main w = 1"
    by (cases "launch w"; cases "run w init_stats"; cases "cleanup w") (auto simp: main_def)
  show ?thesis
    using a[of st] b c d by blast
qed

text \<open>
  In the run where every attempt fails the exit code is 0; in a run where \<open>run\<close> returns
  \<open>True\<close> and closing the browser raises, it is 1.
\<close>

theorem run_success_iff_witness:
  "fst (run world_all_fail init_stats)
   \<and> get_hotboards (discovery world_all_fail) =
       Inr [\<lparr>name = ''NBA'', url = ''https://www.ptt.cc/bbs/NBA/index.html''\<rparr>]
   \<and> main world_all_fail = 0
   \<and> launch world_cleanup_raises = Returns ()
   \<and> fst (run world_cleanup_raises init_stats)
   \<and> cleanup world_cleanup_raises = Raises ''Connection closed''
   \<and> main world_cleanup_raises = 1"
proof -
  have h: "get_hotboards (discovery world_all_fail) =
       Inr [\<lparr>name = ''NBA'', url = ''https://www.ptt.cc/bbs/NBA/index.html''\<rparr>]"
    by (simp add: run_eval_defs run_demo_defs board_eval_defs)
  have p: "get_board_posts \<lparr>name = ''NBA'', url = ''https://www.ptt.cc/bbs/NBA/index.html''\<rparr>
             (listing (boards_w world_all_fail 0)) =
     Inr [[(''title'', ''[News] Finals''), (''link'', ''https://www.ptt.cc/bbs/NBA/M.1.A.html''),
           (''author'', ''bob''), (''date'', ''11/04''), (''board'', ''NBA'')],
          [(''title'', ''Re: [News] Finals''),
           (''link'', ''https://www.ptt.cc/bbs/NBA/M.2.A.html''),
           (''author'', ''amy''), (''date'', ''11/04''), (''board'', ''NBA'')]]"
    by (simp add: run_demo_defs board_eval_defs board_demo_defs)
  have l: "launch world_all_fail = Returns ()" "cleanup world_all_fail = Returns ()"
    by (simp_all add: world_all_fail_def)
  note iff = run_success_iff[of world_all_fail init_stats]
  have r: "fst (run world_all_fail init_stats)"
    using iff[THEN conjunct2, THEN conjunct1] h p by auto
  have m: "main world_all_fail = 0"
    using iff[THEN conjunct2, THEN conjunct2, THEN conjunct1] l r by auto
  have h2: "get_hotboards (discovery world_cleanup_raises) =
       Inr [\<lparr>name = ''NBA'', url = ''https://www.ptt.cc/bbs/NBA/index.html''\<rparr>]"
    by (simp add: run_eval_defs run_demo_defs board_eval_defs)
  have p2: "get_board_posts \<lparr>name = ''NBA'', url = ''https://www.ptt.cc/bbs/NBA/index.html''\<rparr>
             (listing (boards_w world_cleanup_raises 0)) =
     Inr [[(''title'', ''[News] Finals''), (''link'', ''https://www.ptt.cc/bbs/NBA/M.1.A.html''),
           (''author'', ''bob''), (''date'', ''11/04''), (''board'', ''NBA'')],
          [(''title'', ''Re: [News] Finals''),
           (''link'', ''https://www.ptt.cc/bbs/NBA/M.2.A.html''),
           (''author'', ''amy''), (''date'', ''11/04''), (''board'', ''NBA'')]]"
    by (simp add: run_demo_defs board_eval_defs board_demo_defs)
  have l2: "launch world_cleanup_raises = Returns ()"
    "cleanup world_cleanup_raises = Raises ''Connection closed''"
    by (simp_all add: world_cleanup_raises_def)
  note iff2 = run_success_iff[of world_cleanup_raises init_stats]
  have r2: "fst (run world_cleanup_raises init_stats)"
    using iff2[THEN conjunct2, THEN conjunct1] h2 p2 by auto
  have "main world_cleanup_raises \<noteq> 0"
    using iff2[THEN conjunct2, THEN conjunct2, THEN conjunct1] l2 by simp
  then have m2: "main world_cleanup_raises = 1"
    using iff2[THEN conjunct2, THEN conjunct2, THEN conjunct2] by simp
  show ?thesis
    using r h m l2 r2 m2 by simp
qed

text \<open>
  C7, as stated, fails for one way in which discovery can raise: the page of the
  hot-boards list is opened before the \<open>try\<close> block of \<open>get_hotboards\<close>, so when the
  browser cannot open it the exception leaves \<open>crawl_all_boards\<close>, no board is processed
  and \<open>run\<close> returns \<open>False\<close>.
\<close>

theorem discovery_raises_counterexample:
  "get_hotboards (discovery world_no_page) =
     Inl (Error ''Target page, context or browser has been closed'')
   \<and> crawl_all_boards world_no_page init_stats =
       (Inl (Error ''Target page, context or browser has been closed''),
        init_stats\<lparr>start_time := Some 0\<rparr>)
   \<and> run world_no_page init_stats = (False, [], init_stats\<lparr>start_time := Some 0\<rparr>)
   \<and> main world_no_page = 1"
  by (simp add: run_eval_defs run_demo_defs init_stats_def)

text \<open>
  C7, amended.  When the page of the hot-boards list was opened and discovery then fails
  (the navigation or the wait for the list raises, or the page set-up reports failure)
  or yields no board, \<open>get_hotboards\<close> returns the fixed list of ten default boards, and
  \<open>crawl_all_boards\<close> processes these ten boards, each with the world of its position.
\<close>

theorem discovery_fallback:
  assumes "new_page (discovery w) = Returns u" and "discovery_degraded (discovery w)"
  shows "get_hotboards (discovery w) = Inr get_default_boards \<and>
         length get_default_boards = 10 \<and>
         map name get_default_boards =
           [''Gossiping'', ''Stock'', ''NBA'', ''Baseball'', ''C_Chat'', ''PC_Shopping'',
            ''DC_SALE'', ''MobileComm'', ''Lifeismoney'', ''car''] \<and>
         fst (crawl_all_boards w st) =
           Inr (collect (map (\<lambda>(j, b). board_result b (boards_w w j))
                           (zip [0..<10] get_default_boards)) [])"
proof -
  have g: "get_hotboards (discovery w) = Inr get_default_boards"
    using assms
    by (auto simp: get_hotboards_def discovery_degraded_def Let_def split: outcome.splits)
  have l: "length get_default_boards = 10"
    by (simp add: get_default_boards_def NUM_BOARDS_def)
  have n: "map name get_default_boards =
           [''Gossiping'', ''Stock'', ''NBA'', ''Baseball'', ''C_Chat'', ''PC_Shopping'',
            ''DC_SALE'', ''MobileComm'', ''Lifeismoney'', ''car'']"
    by (simp add: get_default_boards_def NUM_BOARDS_def)
  have "fst (crawl_all_boards w st) =
           Inr (collect (map (\<lambda>(j, b). board_result b (boards_w w j))
                           (zip [0..<length get_default_boards] get_default_boards)) [])"
    by (simp only: crawl_all_boards_result g sum.case)
  then show ?thesis
    using g l n by simp
qed

theorem discovery_fallback_witness:
  "new_page (discovery world_timeout) = Returns ()
   \<and> discovery_degraded (discovery world_timeout)
   \<and> get_hotboards (discovery world_timeout) = Inr get_default_boards
   \<and> length get_default_boards = 10"
proof -
  have a: "new_page (discovery world_timeout) = Returns ()"
    by (simp add: run_demo_defs)
  have b: "discovery_degraded (discovery world_timeout)"
    by (simp add: run_demo_defs discovery_degraded_def)
  from discovery_fallback[OF a b, of init_stats] a b show ?thesis by simp
qed

text \<open>
  C9, as stated, fails.  Two runs against the same pages, with the clock read at
  different times, give results that differ in the \<open>crawl_time\<close> of the successful
  outcome.
\<close>

theorem rerun_differs_counterexample:
  "fst (crawl_all_boards (world_at demo_clock 0 90) init_stats) =
     Inr [(''NBA'',
           [[(''title'', Str ''[News] Finals''),
             (''link'', Str ''https://www.ptt.cc/bbs/NBA/M.1.A.html''),
             (''author'', Str ''bob''), (''date'', Str ''11/04''), (''board'', Str ''NBA''),
             (''content'', Str []), (''pushes'', Num 0), (''status'', Str ''error''),
             (''error'', Str ''Timeout 30000ms exceeded''), (''retry_count'', Num 2)],
            [(''title'', Str ''Re: [News] Finals''),
             (''link'', Str ''https://www.ptt.cc/bbs/NBA/M.2.A.html''),
             (''author'', Str ''amy''), (''date'', Str ''11/04''), (''board'', Str ''NBA''),
             (''content'', Str ''game seven''), (''pushes'', Num 7),
             (''status'', Str ''success''), (''crawl_time'', Str ''2025-11-04 10:00:00''),
             (''retry_count'', Num 0)]])]
   \<and> fst (crawl_all_boards (world_at later_clock 450 540) init_stats) =
     Inr [(''NBA'',
           [[(''title'', Str ''[News] Finals''),
             (''link'', Str ''https://www.ptt.cc/bbs/NBA/M.1.A.html''),
             (''author'', Str ''bob''), (''date'', Str ''11/04''), (''board'', Str ''NBA''),
             (''content'', Str []), (''pushes'', Num 0), (''status'', Str ''error''),
             (''error'', Str ''Timeout 30000ms exceeded''), (''retry_count'', Num 2)],
            [(''title'', Str ''Re: [News] Finals''),
             (''link'', Str ''https://www.ptt.cc/bbs/NBA/M.2.A.html''),
             (''author'', Str ''amy''), (''date'', Str ''11/04''), (''board'', Str ''NBA''),
             (''content'', Str ''game seven''), (''pushes'', Num 7),
             (''status'', Str ''success''), (''crawl_time'', Str ''2025-11-04 10:07:30''),
             (''retry_count'', Num 0)]])]
   \<and> fst (crawl_all_boards (world_at demo_clock 0 90) init_stats)
       \<noteq> fst (crawl_all_boards (world_at later_clock 450 540) init_stats)"
  by (simp add: run_eval_defs run_demo_defs board_eval_defs board_demo_defs eval_defs demo_defs)

text \<open>
  C9, amended.  Two runs against the same pages (the same hot-boards page, and for
  every board the same index page and detail pages) give the same \<open>boards_data\<close> up to
  the \<open>crawl_time\<close> entries, the same return value of \<open>run\<close> and the same files; when
  the clock readings of the units agree as well, the two \<open>boards_data\<close> are identical.
\<close>

theorem rerun_same_up_to_time:
  assumes "discovery w1 = discovery w2"
    and "\<forall>i. listing (boards_w w1 i) = listing (boards_w w2 i)
              \<and> fetch (boards_w w1 i) = fetch (boards_w w2 i)"
  shows "erase_crawl (fst (crawl_all_boards w1 st1)) = erase_crawl (fst (crawl_all_boards w2 st2))
       \<and> fst (run w1 st1) = fst (run w2 st2)
       \<and> fst (snd (run w1 st1)) = fst (snd (run w2 st2))
       \<and> ((\<forall>i. clock (boards_w w1 i) = clock (boards_w w2 i))
            \<longrightarrow> fst (crawl_all_boards w1 st1) = fst (crawl_all_boards w2 st2))"
proof -
  have e: "erase_crawl (fst (crawl_all_boards w1 st1))
             = erase_crawl (fst (crawl_all_boards w2 st2))"
    using crawl_clock[OF assms] .
  have shape: "(\<exists>x. fst (crawl_all_boards w1 st1) = Inl x \<and> fst (crawl_all_boards w2 st2) = Inl x)
     \<or> (\<exists>bd1 bd2. fst (crawl_all_boards w1 st1) = Inr bd1
           \<and> fst (crawl_all_boards w2 st2) = Inr bd2 \<and> erase_times bd1 = erase_times bd2)"
    using e
    by (cases "fst (crawl_all_boards w1 st1)"; cases "fst (crawl_all_boards w2 st2)")
      (simp_all add: erase_crawl_def)
  have r: "fst (run w1 st1) = fst (run w2 st2)"
    and f: "fst (snd (run w1 st1)) = fst (snd (run w2 st2))"
  proof -
    from shape show "fst (run w1 st1) = fst (run w2 st2)"
    proof
      assume "\<exists>x. fst (crawl_all_boards w1 st1) = Inl x \<and> fst (crawl_all_boards w2 st2) = Inl x"
      then show ?thesis by (auto simp: run_success)
    next
      assume "\<exists>bd1 bd2. fst (crawl_all_boards w1 st1) = Inr bd1
           \<and> fst (crawl_all_boards w2 st2) = Inr bd2 \<and> erase_times bd1 = erase_times bd2"
      then obtain bd1 bd2 where b: "fst (crawl_all_boards w1 st1) = Inr bd1"
        "fst (crawl_all_boards w2 st2) = Inr bd2" "erase_times bd1 = erase_times bd2"
        by blast
      have "map fst bd1 = map fst bd2"
        using erase_times_keys[of bd1] erase_times_keys[of bd2] b(3) by simp
      then have "bd1 = [] \<longleftrightarrow> bd2 = []" by (cases bd1; cases bd2) simp_all
      then show ?thesis using b by (simp add: run_success)
    qed
    from shape show "fst (snd (run w1 st1)) = fst (snd (run w2 st2))"
    proof
      assume "\<exists>x. fst (crawl_all_boards w1 st1) = Inl x \<and> fst (crawl_all_boards w2 st2) = Inl x"
      then show ?thesis by (auto simp: run_files)
    next
      assume "\<exists>bd1 bd2. fst (crawl_all_boards w1 st1) = Inr bd1
           \<and> fst (crawl_all_boards w2 st2) = Inr bd2 \<and> erase_times bd1 = erase_times bd2"
      then obtain bd1 bd2 where b: "fst (crawl_all_boards w1 st1) = Inr bd1"
        "fst (crawl_all_boards w2 st2) = Inr bd2" "erase_times bd1 = erase_times bd2"
        by blast
      have k: "map fst bd1 = map fst bd2"
        using erase_times_keys[of bd1] erase_times_keys[of bd2] b(3) by simp
      then have "bd1 = [] \<longleftrightarrow> bd2 = []" by (cases bd1; cases bd2) simp_all
      then show ?thesis using b k by (simp add: run_files)
    qed
  qed
  have c: "fst (crawl_all_boards w1 st1) = fst (crawl_all_boards w2 st2)"
    if "\<forall>i. clock (boards_w w1 i) = clock (boards_w w2 i)"
  proof -
    have "boards_w w1 i = boards_w w2 i" for i
      using assms(2) that by (intro board_world.equality) simp_all
    then have "boards_w w1 = boards_w w2" by (intro ext)
    then show ?thesis
      by (simp only: crawl_all_boards_result assms(1))
  qed
  show ?thesis using e r f c by blast
qed

theorem rerun_same_up_to_time_witness:
  "discovery (world_at demo_clock 0 90) = discovery (world_at later_clock 450 540)
   \<and> erase_crawl (fst (crawl_all_boards (world_at demo_clock 0 90) init_stats))
       = erase_crawl (fst (crawl_all_boards (world_at later_clock 450 540) init_stats))
   \<and> fst (run (world_at demo_clock 0 90) init_stats)
       = fst (run (world_at later_clock 450 540) init_stats)"
proof -
  have d: "discovery (world_at demo_clock 0 90) = discovery (world_at later_clock 450 540)"
    by (simp add: world_at_def)
  have p: "\<forall>i. listing (boards_w (world_at demo_clock 0 90) i)
                   = listing (boards_w (world_at later_clock 450 540) i)
              \<and> fetch (boards_w (world_at demo_clock 0 90) i)
                   = fetch (boards_w (world_at later_clock 450 540) i)"
    by (simp add: world_at_def bws_at_def)
  from rerun_same_up_to_time[OF d p, of init_stats init_stats] d show ?thesis by blast
qed

section \<open>The claim about the concurrency limits\<close>

lemma replicate_4: "replicate 4 x = [x, x, x, x]"
  by (simp add: numeral_eq_Suc)

lemma replicate_6: "replicate 6 x = [x, x, x, x, x, x]"
  by (simp add: numeral_eq_Suc)

lemmas sched_eval_defs = replicate_4 replicate_6 fire_def set_task_def start_def in_flight_def
  CONCURRENT_BOARDS_def CONCURRENT_ARTICLES_def ARTICLES_PER_BOARD_def

lemmas sched_demo_defs = board_steps_def demo_schedule_def board_full_def sched_full_def

text \<open>
  C8.  In every state that the tasks of \<open>crawl_all_boards\<close> over \<open>n\<close> boards can reach,
  in whatever order the event loop lets them move, and so at every point of every run
  (every prefix of a schedule is a schedule), the number of units inside the \<open>with\<close>
  block of \<open>get_article_detail_with_retry\<close>, which are the only ones that can have an
  article fetch in flight, is at most \<open>CONCURRENT_BOARDS * CONCURRENT_ARTICLES\<close> = 15.
  The two gates give it: at most \<open>CONCURRENT_BOARDS\<close> boards are inside the \<open>with\<close> block
  of \<open>process_board\<close>, and each board has at most \<open>CONCURRENT_ARTICLES\<close> units inside
  theirs.
\<close>

theorem in_flight_bounded:
  assumes "schedule as (start n) = Some s"
  shows "in_flight s \<le> CONCURRENT_BOARDS * CONCURRENT_ARTICLES \<and>
         sum_list (map active_of (board_tasks s)) \<le> CONCURRENT_BOARDS \<and>
         list_all (\<lambda>t. in_flight_of t \<le> CONCURRENT_ARTICLES) (board_tasks s) \<and>
         (\<exists>s1. schedule (take k as) (start n) = Some s1 \<and>
                in_flight s1 \<le> CONCURRENT_BOARDS * CONCURRENT_ARTICLES) \<and>
         CONCURRENT_BOARDS * CONCURRENT_ARTICLES = 15"
proof -
  have i: "sched_inv s"
    using schedule_inv[OF assms start_inv] .
  obtain s1 where p: "schedule (take k as) (start n) = Some s1"
    using schedule_take[OF assms] by blast
  have "in_flight s1 \<le> CONCURRENT_BOARDS * CONCURRENT_ARTICLES"
    using inv_bound[OF schedule_inv[OF p start_inv]] .
  then have "\<exists>s1. schedule (take k as) (start n) = Some s1 \<and>
                in_flight s1 \<le> CONCURRENT_BOARDS * CONCURRENT_ARTICLES"
    using p by blast
  moreover have "CONCURRENT_BOARDS * CONCURRENT_ARTICLES = 15"
    by (simp add: CONCURRENT_BOARDS_def CONCURRENT_ARTICLES_def)
  ultimately show ?thesis
    using inv_bound[OF i] inv_gates[OF i] by simp
qed

text \<open>
  The bound is reached: with three boards inside and five units of each inside there
  are 15 units in flight, and then neither a fourth board nor a sixth unit of a board
  can enter.
\<close>

theorem in_flight_bounded_witness:
  "schedule demo_schedule (start 4) = Some sched_full
   \<and> in_flight sched_full = 15
   \<and> in_flight sched_full \<le> CONCURRENT_BOARDS * CONCURRENT_ARTICLES
   \<and> fire (AcquireBoard 3) sched_full = None
   \<and> fire (AcquireArticle 0 5) sched_full = None"
proof -
  have h: "schedule demo_schedule (start 4) = Some sched_full"
    by (simp add: sched_eval_defs sched_demo_defs)
  have "in_flight sched_full \<le> CONCURRENT_BOARDS * CONCURRENT_ARTICLES"
    using in_flight_bounded[OF h, of 0] by simp
  moreover have "in_flight sched_full = 15"
    by (simp add: sched_eval_defs sched_demo_defs)
  moreover have "fire (AcquireBoard 3) sched_full = None"
    by (simp add: sched_eval_defs sched_demo_defs)
  moreover have "fire (AcquireArticle 0 5) sched_full = None"
    by (simp add: sched_eval_defs sched_demo_defs)
  ultimately show ?thesis using h by simp
qed

end
